theory Spec2Isabelle
  imports Main "HOL-Library.Sublist"
begin

section \<open>Data model\<close>

subsection \<open>JSON values\<close>

text \<open>
  The value that \<^verbatim>\<open>json.load\<close> returns. A Python \<^verbatim>\<open>dict\<close> keeps its items in
  insertion order, so an object is an association list. The evaluator never looks
  inside a number, a boolean or \<^verbatim>\<open>null\<close>.
\<close>

datatype json =
    JNull
  | JBool bool
  | JNum int
  | JStr string
  | JArr "json list"
  | JObj "(string \<times> json) list"

subsection \<open>The file system\<close>

text \<open>
  An in-memory file system: a regular file with its content, or a directory with
  its entries in listing order. The root of the tree is the root directory, and a
  \<^verbatim>\<open>pathlib.Path\<close> is the list of its components below the root. Symbolic links,
  special files and permissions are not part of it, so no operation on it fails.
  A component of a path is looked up by name among the entries of a directory, the
  first entry of that name. The operating system resolves a component \<^verbatim>\<open>..\<close> to the
  parent directory; the tree does not: there \<^verbatim>\<open>..\<close> is a name like any other, one that
  no directory lists. So the tree and the operating system agree on the paths that
  have no \<^verbatim>\<open>..\<close> component, and a statement that depends on how a path through \<^verbatim>\<open>..\<close>
  resolves is made under the hypothesis that there is none (\<open>dotdot_free_path\<close>,
  \<open>dotdot_free_rule\<close> below).
\<close>

datatype node =
    File string
  | Dir "(string \<times> node) list"

type_synonym path = "string list"

fun lookup :: "node \<Rightarrow> path \<Rightarrow> node option" where
  "lookup t [] = Some t"
| "lookup (File c) (n # ns) = None"
| "lookup (Dir es) (n # ns) =
     (case map_of es n of None \<Rightarrow> None | Some child \<Rightarrow> lookup child ns)"

definition path_exists :: "node \<Rightarrow> path \<Rightarrow> bool" where
  "path_exists t p = (lookup t p \<noteq> None)"

definition is_file :: "node \<Rightarrow> path \<Rightarrow> bool" where
  "is_file t p = (case lookup t p of Some (File c) \<Rightarrow> True | _ \<Rightarrow> False)"

definition is_dir :: "node \<Rightarrow> path \<Rightarrow> bool" where
  "is_dir t p = (case lookup t p of Some (Dir es) \<Rightarrow> True | _ \<Rightarrow> False)"

text \<open>\<^verbatim>\<open>{item.name for item in path.iterdir()}\<close>: the names of the entries of a directory.\<close>

definition iterdir_names :: "node \<Rightarrow> path \<Rightarrow> string list" where
  "iterdir_names t p = (case lookup t p of Some (Dir es) \<Rightarrow> remdups (map fst es) | _ \<Rightarrow> [])"

text \<open>
  Removing the entry at a path, with everything below it. This is what both
  \<^verbatim>\<open>Path.unlink\<close> (on a file) and \<^verbatim>\<open>shutil.rmtree\<close> (on a directory) do to the tree.
  The root directory itself cannot be removed: \<^verbatim>\<open>rmtree\<close> empties it.
\<close>

fun remove_entry :: "path \<Rightarrow> node \<Rightarrow> node" where
  "remove_entry p (File c) = File c"
| "remove_entry [] (Dir es) = Dir []"
| "remove_entry [n] (Dir es) = Dir (filter (\<lambda>e. fst e \<noteq> n) es)"
| "remove_entry (n # m # ms) (Dir es) =
     Dir (map (\<lambda>e. if fst e = n then (fst e, remove_entry (m # ms) (snd e)) else e) es)"

definition unlink :: "path \<Rightarrow> node \<Rightarrow> node" where
  "unlink p t = remove_entry p t"

definition rmtree :: "path \<Rightarrow> node \<Rightarrow> node" where
  "rmtree p t = remove_entry p t"

subsection \<open>Paths\<close>

text \<open>
  \<^verbatim>\<open>base_path / relative_path\<close>: pathlib splits the string at \<^verbatim>\<open>/\<close>, drops empty and
  \<^verbatim>\<open>.\<close> components, and an operand that starts with \<^verbatim>\<open>/\<close> replaces the base.
\<close>

fun split_on :: "char \<Rightarrow> string \<Rightarrow> string list" where
  "split_on sep [] = [[]]"
| "split_on sep (c # cs) =
     (if c = sep then [] # split_on sep cs
      else (case split_on sep cs of [] \<Rightarrow> [[c]] | w # ws \<Rightarrow> (c # w) # ws))"

definition parts :: "string \<Rightarrow> path" where
  "parts s = filter (\<lambda>w. w \<noteq> [] \<and> w \<noteq> ''.'') (split_on CHR ''/'' s)"

definition is_absolute :: "string \<Rightarrow> bool" where
  "is_absolute s = (case s of [] \<Rightarrow> False | c # cs \<Rightarrow> c = CHR ''/'')"

definition joinpath :: "path \<Rightarrow> string \<Rightarrow> path" where
  "joinpath base s = (if is_absolute s then parts s else base @ parts s)"

text \<open>\<^verbatim>\<open>f"{relative_path}/{name}" if relative_path else name\<close>\<close>

definition sub_relative_path :: "string \<Rightarrow> string \<Rightarrow> string" where
  "sub_relative_path relative_path name =
     (if relative_path \<noteq> [] then relative_path @ ''/'' @ name else name)"

section \<open>The rule evaluator\<close>

subsection \<open>Diagnostics\<close>

text \<open>One constructor for each \<^verbatim>\<open>logger.warning\<close> call of \<^verbatim>\<open>delete_path\<close> and \<^verbatim>\<open>process_rule\<close>.\<close>

datatype diagnostic =
    PathDoesNotExist path
  | UnknownRule string string
  | IncorrectArrayRuleFormat string
  | UnknownMode json string
  | DeclarationListNotObject string
  | DirectoryDoesNotExist string
  | PathIsNotDirectory string

subsection \<open>\<^verbatim>\<open>delete_path\<close>\<close>

definition delete_path :: "path \<Rightarrow> node \<Rightarrow> node \<times> diagnostic list" where
  "delete_path p t =
     (if \<not> path_exists t p then (t, [PathDoesNotExist p])
      else if is_file t p then (unlink p t, [])
      else if is_dir t p then (rmtree p t, [])
      else (t, []))"

text \<open>
  \<^verbatim>\<open>for item_name in items_to_delete: delete_path(current_path / item_name)\<close>.
  Python iterates the set in an order it does not specify; the model takes listing
  order. On the tree the file system that results is the same for every order
  (\<open>delete_items_order\<close> below). For the code that holds when no path of the loop has
  a \<^verbatim>\<open>..\<close> component: a path through \<^verbatim>\<open>..\<close> is resolved again at every step, against
  a directory that an earlier step may have removed.
\<close>

fun delete_items :: "path \<Rightarrow> string list \<Rightarrow> node \<Rightarrow> node \<times> diagnostic list" where
  "delete_items current_path [] t = (t, [])"
| "delete_items current_path (item_name # items) t =
     (case delete_path (joinpath current_path item_name) t of (t1, d1) \<Rightarrow>
      case delete_items current_path items t1 of (t2, d2) \<Rightarrow> (t2, d1 @ d2))"

subsection \<open>\<^verbatim>\<open>process_rule\<close>\<close>

definition valid_mode :: "json \<Rightarrow> bool" where
  "valid_mode mode = (case mode of JStr m \<Rightarrow> m = ''preserve'' \<or> m = ''delete'' | _ \<Rightarrow> False)"

fun process_rule :: "path \<Rightarrow> string \<Rightarrow> json \<Rightarrow> node \<Rightarrow> node \<times> diagnostic list"
  and process_items :: "path \<Rightarrow> string \<Rightarrow> (string \<times> json) list \<Rightarrow> node \<Rightarrow> node \<times> diagnostic list"
where
  "process_rule base_path relative_path (JStr rule) t =
     (if rule = ''delete'' then delete_path (joinpath base_path relative_path) t
      else if rule = ''preserve'' then (t, [])
      else (t, [UnknownRule rule relative_path]))"
| "process_rule base_path relative_path (JObj rule) t =
     process_items base_path relative_path rule t"
| "process_rule base_path relative_path (JArr rule) t =
     (case rule of
        [mode, declarations] \<Rightarrow>
          if \<not> valid_mode mode then (t, [UnknownMode mode relative_path])
          else (case declarations of
            JObj decls \<Rightarrow>
              let current_path = joinpath base_path relative_path in
              if \<not> path_exists t current_path then (t, [DirectoryDoesNotExist relative_path])
              else if \<not> is_dir t current_path then (t, [PathIsNotDirectory relative_path])
              else
                let existing_items = iterdir_names t current_path;
                    declared_items = set (map fst decls)
                in
                if mode = JStr ''preserve'' then
                  (let items_to_delete = filter (\<lambda>n. n \<notin> declared_items) existing_items in
                   case delete_items current_path items_to_delete t of (t1, d1) \<Rightarrow>
                   case process_items base_path relative_path decls t1 of (t2, d2) \<Rightarrow>
                     (t2, d1 @ d2))
                else process_items base_path relative_path decls t
          | _ \<Rightarrow> (t, [DeclarationListNotObject relative_path]))
      | _ \<Rightarrow> (t, [IncorrectArrayRuleFormat relative_path]))"
| "process_rule base_path relative_path JNull t = (t, [])"
| "process_rule base_path relative_path (JBool b) t = (t, [])"
| "process_rule base_path relative_path (JNum i) t = (t, [])"
| "process_items base_path relative_path [] t = (t, [])"
| "process_items base_path relative_path ((name, sub_rule) # items) t =
     (case process_rule base_path (sub_relative_path relative_path name) sub_rule t of (t1, d1) \<Rightarrow>
      case process_items base_path relative_path items t1 of (t2, d2) \<Rightarrow> (t2, d1 @ d2))"

subsection \<open>The legacy evaluator\<close>

text \<open>
  \<^verbatim>\<open>legacy/patch.py\<close> reports on standard output instead of the logger and takes a
  \<^verbatim>\<open>dry_run\<close> flag. One constructor for each \<^verbatim>\<open>print\<close> call of its \<^verbatim>\<open>delete_path\<close> and
  \<^verbatim>\<open>process_rule\<close>; a boolean argument is the dry-run tag of the line.
\<close>

datatype printed =
    SkippedMissing path
  | DeletedFile path
  | DeletedDirectory path
  | Deleting bool string
  | Preserving string
  | WarnUnknownRule string string
  | EnteringDirectory string
  | WarnArrayFormat string
  | WarnUnknownMode json string
  | WarnNotObject string
  | WarnDirectoryMissing string
  | WarnNotDirectory string
  | WhitelistMode string nat nat
  | DeletingUndeclared bool string
  | BlacklistMode string nat

definition legacy_delete_path :: "path \<Rightarrow> node \<Rightarrow> node \<times> printed list" where
  "legacy_delete_path p t =
     (if \<not> path_exists t p then (t, [SkippedMissing p])
      else if is_file t p then (unlink p t, [DeletedFile p])
      else if is_dir t p then (rmtree p t, [DeletedDirectory p])
      else (t, []))"

fun legacy_delete_items ::
  "path \<Rightarrow> string \<Rightarrow> bool \<Rightarrow> string list \<Rightarrow> node \<Rightarrow> node \<times> printed list" where
  "legacy_delete_items current_path relative_path dry_run [] t = (t, [])"
| "legacy_delete_items current_path relative_path dry_run (item_name # items) t =
     (let item_relative_path = sub_relative_path relative_path item_name in
      case (if \<not> dry_run then legacy_delete_path (joinpath current_path item_name) t else (t, []))
      of (t1, d1) \<Rightarrow>
      case legacy_delete_items current_path relative_path dry_run items t1 of (t2, d2) \<Rightarrow>
        (t2, DeletingUndeclared dry_run item_relative_path # d1 @ d2))"

fun legacy_process_rule ::
    "path \<Rightarrow> string \<Rightarrow> json \<Rightarrow> bool \<Rightarrow> node \<Rightarrow> node \<times> printed list"
  and legacy_process_items ::
    "path \<Rightarrow> string \<Rightarrow> (string \<times> json) list \<Rightarrow> bool \<Rightarrow> node \<Rightarrow> node \<times> printed list"
where
  "legacy_process_rule base_path relative_path (JStr rule) dry_run t =
     (if rule = ''delete'' then
        (case (if \<not> dry_run then legacy_delete_path (joinpath base_path relative_path) t
               else (t, []))
         of (t1, d1) \<Rightarrow> (t1, Deleting dry_run relative_path # d1))
      else if rule = ''preserve'' then (t, [Preserving relative_path])
      else (t, [WarnUnknownRule rule relative_path]))"
| "legacy_process_rule base_path relative_path (JObj rule) dry_run t =
     (case legacy_process_items base_path relative_path rule dry_run t of (t1, d1) \<Rightarrow>
        (t1, EnteringDirectory relative_path # d1))"
| "legacy_process_rule base_path relative_path (JArr rule) dry_run t =
     (case rule of
        [mode, declarations] \<Rightarrow>
          if \<not> valid_mode mode then (t, [WarnUnknownMode mode relative_path])
          else (case declarations of
            JObj decls \<Rightarrow>
              let current_path = joinpath base_path relative_path in
              if \<not> path_exists t current_path then (t, [WarnDirectoryMissing relative_path])
              else if \<not> is_dir t current_path then (t, [WarnNotDirectory relative_path])
              else
                let existing_items = iterdir_names t current_path;
                    declared_items = set (map fst decls);
                    declared_count = length (remdups (map fst decls))
                in
                if mode = JStr ''preserve'' then
                  (let items_to_delete = filter (\<lambda>n. n \<notin> declared_items) existing_items in
                   case legacy_delete_items current_path relative_path dry_run items_to_delete t
                   of (t1, d1) \<Rightarrow>
                   case legacy_process_items base_path relative_path decls dry_run t1
                   of (t2, d2) \<Rightarrow>
                     (t2, WhitelistMode relative_path declared_count (length items_to_delete)
                            # d1 @ d2))
                else
                  (case legacy_process_items base_path relative_path decls dry_run t
                   of (t1, d1) \<Rightarrow> (t1, BlacklistMode relative_path declared_count # d1))
          | _ \<Rightarrow> (t, [WarnNotObject relative_path]))
      | _ \<Rightarrow> (t, [WarnArrayFormat relative_path]))"
| "legacy_process_rule base_path relative_path JNull dry_run t = (t, [])"
| "legacy_process_rule base_path relative_path (JBool b) dry_run t = (t, [])"
| "legacy_process_rule base_path relative_path (JNum i) dry_run t = (t, [])"
| "legacy_process_items base_path relative_path [] dry_run t = (t, [])"
| "legacy_process_items base_path relative_path ((name, sub_rule) # items) dry_run t =
     (case legacy_process_rule base_path (sub_relative_path relative_path name) sub_rule dry_run t
      of (t1, d1) \<Rightarrow>
      case legacy_process_items base_path relative_path items dry_run t1 of (t2, d2) \<Rightarrow>
        (t2, d1 @ d2))"

subsection \<open>What a path holds\<close>

text \<open>
  The observable state of a path: absent, a file with its content, or a directory.
  One file system is below another when every path present in the first is present
  in the second and holds the same thing there.
\<close>

datatype kind = KFile string | KDir

definition kind_of :: "node \<Rightarrow> kind" where
  "kind_of n = (case n of File c \<Rightarrow> KFile c | Dir es \<Rightarrow> KDir)"

definition kind_at :: "node \<Rightarrow> path \<Rightarrow> kind option" where
  "kind_at t p = map_option kind_of (lookup t p)"

definition fs_le :: "node \<Rightarrow> node \<Rightarrow> bool" where
  "fs_le a b = (\<forall>p k. kind_at a p = Some k \<longrightarrow> kind_at b p = Some k)"

text \<open>Nothing is left at or below a path (below only, for the root).\<close>

definition gone :: "node \<Rightarrow> path \<Rightarrow> bool" where
  "gone t p = (\<forall>q. prefix p q \<and> q \<noteq> [] \<longrightarrow> kind_at t q = None)"

subsection \<open>Shapes of rules and names\<close>

text \<open>A rule tree built only from the leaf \<^verbatim>\<open>"preserve"\<close> and from mappings.\<close>

fun preserve_only :: "json \<Rightarrow> bool" where
  "preserve_only (JStr s) = (s = ''preserve'')"
| "preserve_only (JObj kvs) = (\<forall>kv \<in> set kvs. preserve_only (snd kv))"
| "preserve_only r = False"

definition is_object :: "json \<Rightarrow> bool" where
  "is_object d = (case d of JObj kvs \<Rightarrow> True | _ \<Rightarrow> False)"

text \<open>
  The conditions under which an array rule is rejected: wrong length, a mode that
  is not one of the two strings, declarations that are not a mapping, a target that
  is missing or is not a directory.
\<close>

definition rejected :: "path \<Rightarrow> string \<Rightarrow> json list \<Rightarrow> node \<Rightarrow> bool" where
  "rejected base_path relative_path rule t =
     (length rule \<noteq> 2 \<or> \<not> valid_mode (rule ! 0) \<or> \<not> is_object (rule ! 1)
      \<or> \<not> path_exists t (joinpath base_path relative_path)
      \<or> \<not> is_dir t (joinpath base_path relative_path))"

text \<open>The name of a directory entry: one path component, neither \<^verbatim>\<open>.\<close> nor \<^verbatim>\<open>..\<close>.\<close>

definition valid_name :: "string \<Rightarrow> bool" where
  "valid_name n = (n \<noteq> [] \<and> CHR ''/'' \<notin> set n \<and> n \<noteq> ''.'' \<and> n \<noteq> ''..'')"

text \<open>
  A path none of whose components is \<^verbatim>\<open>..\<close>, and a rule tree none of whose keys, at
  any depth, has a component \<^verbatim>\<open>..\<close> once pathlib has split it.
\<close>

definition dotdot_free_path :: "path \<Rightarrow> bool" where
  "dotdot_free_path p = (''..'' \<notin> set p)"

fun dotdot_free_rule :: "json \<Rightarrow> bool" where
  "dotdot_free_rule (JObj kvs) =
     (\<forall>kv \<in> set kvs. dotdot_free_path (parts (fst kv)) \<and> dotdot_free_rule (snd kv))"
| "dotdot_free_rule (JArr xs) = (\<forall>x \<in> set xs. dotdot_free_rule x)"
| "dotdot_free_rule r = True"

subsection \<open>A small pack\<close>

text \<open>A concrete file system and a concrete rule, used to run the definitions.\<close>

definition example_tree :: node where
  "example_tree =
     Dir [(''assets'', Dir [(''minecraft'',
       Dir [(''a'', File ''x''), (''b'', File ''y''), (''c'', Dir [(''d'', File ''z'')])])])]"

definition example_rule :: json where
  "example_rule = JArr [JStr ''preserve'', JObj [(''c'', JObj [(''d'', JStr ''delete'')])]]"

section \<open>The metadata patchers\<close>

text \<open>
  A character is a code point below 256, so the section sign of the two tokens is
  \<open>CHR 0xA7\<close>. The patchers are modelled on what the files hold: the parsed document
  of \<^verbatim>\<open>pack.mcmeta\<close>, the text of the two \<^verbatim>\<open>credits.txt\<close> files.
\<close>

definition newline :: char where
  "newline = CHR 0x0A"

text \<open>\<^verbatim>\<open>sep.join(lines)\<close>\<close>

fun str_join :: "string \<Rightarrow> string list \<Rightarrow> string" where
  "str_join sep [] = []"
| "str_join sep [x] = x"
| "str_join sep (x # y # ys) = x @ sep @ str_join sep (y # ys)"

subsection \<open>The description of \<^verbatim>\<open>pack.mcmeta\<close>\<close>

definition description_prefix :: string where
  "description_prefix = CHR 0xA7 # ''dMINI '' @ CHR 0xA7 # ''7''"

definition second_line :: string where
  "second_line = CHR 0xA7 # ''8modified by '' @ CHR 0xA7 # ''7TunaFish2K''"

text \<open>
  Lines 176 to 189 of \<^verbatim>\<open>patch.py\<close>: split at newlines, put the prefix before the first
  line unless it is there, overwrite or append the second line, join again.
  \<^verbatim>\<open>str.split\<close> never returns an empty list.
\<close>

definition patch_description :: "string \<Rightarrow> string" where
  "patch_description original_desc =
     (let lines = split_on newline original_desc;
          lines1 = (if \<not> prefix description_prefix (hd lines)
                    then (description_prefix @ hd lines) # tl lines else lines);
          lines2 = (if length lines1 \<ge> 2 then lines1[1 := second_line]
                    else lines1 @ [second_line])
      in str_join [newline] lines2)"

text \<open>
  Python's \<^verbatim>\<open>key in value\<close> and \<^verbatim>\<open>value[key]\<close> for a string key, on whatever
  \<^verbatim>\<open>json.load\<close> returned: a dictionary is searched by key, a list by element, a string
  by substring, and anything else raises \<^verbatim>\<open>TypeError\<close> (the result \<open>None\<close>). Only a
  dictionary can be indexed by a string.
\<close>

definition py_contains :: "string \<Rightarrow> json \<Rightarrow> bool option" where
  "py_contains key v =
     (case v of
        JObj kvs \<Rightarrow> Some (key \<in> fst ` set kvs)
      | JArr xs \<Rightarrow> Some (JStr key \<in> set xs)
      | JStr s \<Rightarrow> Some (sublist key s)
      | _ \<Rightarrow> None)"

definition py_getitem :: "json \<Rightarrow> string \<Rightarrow> json option" where
  "py_getitem v key = (case v of JObj kvs \<Rightarrow> map_of kvs key | _ \<Rightarrow> None)"

text \<open>\<^verbatim>\<open>d[key] = value\<close> on a dictionary that has the key: its position is kept.\<close>

definition dict_set :: "string \<Rightarrow> json \<Rightarrow> (string \<times> json) list \<Rightarrow> (string \<times> json) list" where
  "dict_set key value kvs = map (\<lambda>kv. if fst kv = key then (key, value) else kv) kvs"

datatype mcmeta_file = NoFile | NotJson | Document json

datatype patch_diagnostic =
    McmetaDoesNotExist
  | McmetaMissingDescription
  | McmetaNotValidJson
  | McmetaError
  | CreditsTemplateNotFound

text \<open>
  \<^verbatim>\<open>modify_pack_mcmeta\<close>. The first result is the document written back to the file,
  \<open>None\<close> when the file is not written. An exception inside the \<^verbatim>\<open>try\<close> block is logged
  and nothing is written.
\<close>

definition modify_pack_mcmeta :: "mcmeta_file \<Rightarrow> json option \<times> patch_diagnostic list" where
  "modify_pack_mcmeta file =
     (case file of
        NoFile \<Rightarrow> (None, [McmetaDoesNotExist])
      | NotJson \<Rightarrow> (None, [McmetaNotValidJson])
      | Document pack_data \<Rightarrow>
          (case py_contains ''pack'' pack_data of
             None \<Rightarrow> (None, [McmetaError])
           | Some False \<Rightarrow> (None, [McmetaMissingDescription])
           | Some True \<Rightarrow>
               (case py_getitem pack_data ''pack'' of
                  None \<Rightarrow> (None, [McmetaError])
                | Some pack \<Rightarrow>
                    (case py_contains ''description'' pack of
                       None \<Rightarrow> (None, [McmetaError])
                     | Some False \<Rightarrow> (None, [McmetaMissingDescription])
                     | Some True \<Rightarrow>
                         (case py_getitem pack ''description'' of
                            Some (JStr original_desc) \<Rightarrow>
                              let new_desc = patch_description original_desc in
                              if new_desc \<noteq> original_desc then
                                (case (pack_data, pack) of
                                   (JObj outer, JObj inner) \<Rightarrow>
                                     (Some (JObj (dict_set ''pack''
                                        (JObj (dict_set ''description'' (JStr new_desc) inner)) outer)),
                                      [])
                                 | _ \<Rightarrow> (None, [McmetaError]))
                              else (None, [])
                          | _ \<Rightarrow> (None, [McmetaError]))))))"

subsection \<open>\<^verbatim>\<open>credits.txt\<close>\<close>

text \<open>The characters below 256 that \<^verbatim>\<open>str.strip\<close> removes.\<close>

definition is_space :: "char \<Rightarrow> bool" where
  "is_space c = (of_char c \<in> {9, 10, 11, 12, 13, 28, 29, 30, 31, 32, 133, 160 :: nat})"

definition py_lstrip :: "string \<Rightarrow> string" where
  "py_lstrip s = dropWhile is_space s"

definition py_rstrip :: "string \<Rightarrow> string" where
  "py_rstrip s = rev (dropWhile is_space (rev s))"

definition py_strip :: "string \<Rightarrow> string" where
  "py_strip s = py_rstrip (py_lstrip s)"

text \<open>
  \<^verbatim>\<open>modify_credits\<close>. The arguments are the text of the template and of the target
  file, \<open>None\<close> for a file that does not exist; the first result is the text of the
  target file afterwards.
\<close>

definition modify_credits ::
  "string option \<Rightarrow> string option \<Rightarrow> string option \<times> patch_diagnostic list" where
  "modify_credits template credits =
     (case template of
        None \<Rightarrow> (credits, [CreditsTemplateNotFound])
      | Some text \<Rightarrow>
          let signature = py_strip text in
          (case credits of
             Some content \<Rightarrow>
               if sublist signature content then (credits, [])
               else (Some (py_rstrip content @ [newline, newline] @ signature @ [newline]), [])
           | None \<Rightarrow> (Some (signature @ [newline]), [])))"

text \<open>A document with a one-line description, to run the patcher.\<close>

definition example_mcmeta :: json where
  "example_mcmeta =
     JObj [(''pack'', JObj [(''pack_format'', JNum 1), (''description'', JStr ''Foo'')])]"

text \<open>The lines of the reconstructed description, before they are joined.\<close>

definition patched_lines :: "string \<Rightarrow> string list" where
  "patched_lines original_desc =
     (let lines = split_on newline original_desc;
          lines1 = (if \<not> prefix description_prefix (hd lines)
                    then (description_prefix @ hd lines) # tl lines else lines)
      in if length lines1 \<ge> 2 then lines1[1 := second_line] else lines1 @ [second_line])"

section \<open>The entry point\<close>

subsection \<open>Locating the pack root\<close>

definition marker :: string where
  "marker = ''pack.mcmeta''"

text \<open>
  \<^verbatim>\<open>for pack_meta in target_dir.rglob("pack.mcmeta"): return pack_meta.parent\<close>: the first
  directory, walking top down in listing order, that has an entry of that name; the
  result is its path below the directory searched.
\<close>

fun find_marker_dir :: "node \<Rightarrow> path option"
  and find_marker_entries :: "(string \<times> node) list \<Rightarrow> path option"
where
  "find_marker_dir (File c) = None"
| "find_marker_dir (Dir es) =
     (if marker \<in> fst ` set es then Some [] else find_marker_entries es)"
| "find_marker_entries [] = None"
| "find_marker_entries ((n, child) # es) =
     (case find_marker_dir child of
        Some p \<Rightarrow> Some (n # p)
      | None \<Rightarrow> find_marker_entries es)"

definition find_pack_mcmeta :: "node \<Rightarrow> path \<Rightarrow> path option" where
  "find_pack_mcmeta t target_dir =
     (if \<not> path_exists t target_dir then None
      else if path_exists t (target_dir @ [marker]) then Some target_dir
      else (case lookup t target_dir of
              Some d \<Rightarrow> map_option (\<lambda>p. target_dir @ p) (find_marker_dir d)
            | None \<Rightarrow> None))"

text \<open>Some directory of the tree, the tree itself included, has an entry named \<^verbatim>\<open>pack.mcmeta\<close>.\<close>

fun has_marker :: "node \<Rightarrow> bool" where
  "has_marker (File c) = False"
| "has_marker (Dir es) = (marker \<in> fst ` set es \<or> (\<exists>e \<in> set es. has_marker (snd e)))"

subsection \<open>\<^verbatim>\<open>main\<close>\<close>

text \<open>
  An exception that nothing catches ends the interpreter with status 1, so the exit
  status of the process is the value \<^verbatim>\<open>main\<close> returns, or 1 when it raises.
\<close>

datatype exn = IsADirectoryError | JSONDecodeError | TypeError | AttributeError | OtherError

datatype outcome = Returned int | Raised exn

definition exit_status :: "outcome \<Rightarrow> int" where
  "exit_status out = (case out of Returned code \<Rightarrow> code | Raised e \<Rightarrow> 1)"

datatype pack_type = Legacy | Modern

text \<open>\<^verbatim>\<open>open(path).read()\<close>: the text of a file, \<open>None\<close> when opening raises.\<close>

definition read_text :: "node \<Rightarrow> path \<Rightarrow> string option" where
  "read_text t p = (case lookup t p of Some (File c) \<Rightarrow> Some c | _ \<Rightarrow> None)"

text \<open>\<^verbatim>\<open>for namespace, rules in assets_rules.items(): process_rule(assets_dir, namespace, rules)\<close>\<close>

fun process_namespaces :: "path \<Rightarrow> (string \<times> json) list \<Rightarrow> node \<Rightarrow> node" where
  "process_namespaces assets_dir [] t = t"
| "process_namespaces assets_dir ((namespace, rules) # rest) t =
     process_namespaces assets_dir rest (fst (process_rule assets_dir namespace rules t))"

text \<open>
  \<^verbatim>\<open>main\<close>, after the command line is parsed and without its messages. Two things it calls are parameters: \<open>json_load\<close>, the
  parser of the \<^verbatim>\<open>json\<close> library (\<open>None\<close> for a text that is not JSON), and
  \<open>finishing_steps\<close>, the overlay copy and the two patchers that run after the rules,
  given the script directory, the script root and the pack root; they return the
  file system they leave and the exception that escaped them, if any. The result is
  how \<^verbatim>\<open>main\<close> ends and the file system it leaves.
\<close>

definition main ::
  "(string \<Rightarrow> json option) \<Rightarrow> (path \<Rightarrow> path \<Rightarrow> path \<Rightarrow> node \<Rightarrow> node \<times> exn option) \<Rightarrow>
     path \<Rightarrow> pack_type \<Rightarrow> path \<Rightarrow> node \<Rightarrow> outcome \<times> node" where
  "main json_load finishing_steps script_root type pack_dir t =
     (let script_dir = script_root @ [case type of Legacy \<Rightarrow> ''legacy'' | Modern \<Rightarrow> ''modern''];
          config_path = script_dir @ [''delete.json'']
      in
      if \<not> path_exists t config_path then (Returned 1, t)
      else case read_text t config_path of
        None \<Rightarrow> (Raised IsADirectoryError, t)
      | Some text \<Rightarrow>
      case json_load text of
        None \<Rightarrow> (Raised JSONDecodeError, t)
      | Some config \<Rightarrow>
      case find_pack_mcmeta t pack_dir of
        None \<Rightarrow> (Returned 1, t)
      | Some pack_root \<Rightarrow>
      let assets_dir = pack_root @ [''assets''] in
      if \<not> path_exists t assets_dir then (Returned 1, t)
      else case py_contains ''assets'' config of
        None \<Rightarrow> (Raised TypeError, t)
      | Some False \<Rightarrow> (Returned 1, t)
      | Some True \<Rightarrow>
      case py_getitem config ''assets'' of
        None \<Rightarrow> (Raised TypeError, t)
      | Some (JObj assets_rules) \<Rightarrow>
          let t1 = process_namespaces assets_dir assets_rules t in
          (case finishing_steps script_dir script_root pack_root t1 of
             (t2, Some e) \<Rightarrow> (Raised e, t2)
           | (t2, None) \<Rightarrow> (Returned 0, t2))
      | Some _ \<Rightarrow> (Raised AttributeError, t))"

subsection \<open>The fatal conditions\<close>

text \<open>
  The conditions the specification lists as fatal, for a run of \<^verbatim>\<open>main\<close>: the target
  directory does not exist, it has no \<^verbatim>\<open>pack.mcmeta\<close> anywhere in its subtree, the
  \<^verbatim>\<open>assets\<close> directory is absent under the located pack root, the configuration file
  is missing, the configuration has no top-level \<^verbatim>\<open>assets\<close> key.
\<close>

definition config_path_of :: "path \<Rightarrow> pack_type \<Rightarrow> path" where
  "config_path_of script_root type =
     script_root @ [case type of Legacy \<Rightarrow> ''legacy'' | Modern \<Rightarrow> ''modern'', ''delete.json'']"

definition config_missing :: "path \<Rightarrow> pack_type \<Rightarrow> node \<Rightarrow> bool" where
  "config_missing script_root type t = (\<not> path_exists t (config_path_of script_root type))"

definition target_missing :: "path \<Rightarrow> node \<Rightarrow> bool" where
  "target_missing pack_dir t = (\<not> path_exists t pack_dir)"

definition no_marker :: "path \<Rightarrow> node \<Rightarrow> bool" where
  "no_marker pack_dir t = (case lookup t pack_dir of Some d \<Rightarrow> \<not> has_marker d | None \<Rightarrow> True)"

definition assets_absent :: "path \<Rightarrow> node \<Rightarrow> bool" where
  "assets_absent pack_dir t =
     (case find_pack_mcmeta t pack_dir of
        Some pack_root \<Rightarrow> \<not> path_exists t (pack_root @ [''assets''])
      | None \<Rightarrow> False)"

text \<open>The parsed configuration, when the file is there and parses.\<close>

definition parsed_config ::
  "(string \<Rightarrow> json option) \<Rightarrow> path \<Rightarrow> pack_type \<Rightarrow> node \<Rightarrow> json option" where
  "parsed_config json_load script_root type t =
     (case read_text t (config_path_of script_root type) of
        Some text \<Rightarrow> json_load text
      | None \<Rightarrow> None)"

definition assets_key_absent ::
  "(string \<Rightarrow> json option) \<Rightarrow> path \<Rightarrow> pack_type \<Rightarrow> node \<Rightarrow> bool" where
  "assets_key_absent json_load script_root type t =
     (case parsed_config json_load script_root type t of
        Some (JObj kvs) \<Rightarrow> ''assets'' \<notin> fst ` set kvs
      | _ \<Rightarrow> False)"

definition listed_fatal ::
  "(string \<Rightarrow> json option) \<Rightarrow> path \<Rightarrow> pack_type \<Rightarrow> path \<Rightarrow> node \<Rightarrow> bool" where
  "listed_fatal json_load script_root type pack_dir t =
     (target_missing pack_dir t \<or> no_marker pack_dir t \<or> assets_absent pack_dir t
      \<or> config_missing script_root type t \<or> assets_key_absent json_load script_root type t)"

subsection \<open>A run of \<^verbatim>\<open>main\<close>\<close>

text \<open>
  A stand-in for the parser on two configuration texts, finishing steps that do
  nothing, and a file system with the tool beside a pack.
\<close>

definition example_json_load :: "string \<Rightarrow> json option" where
  "example_json_load =
     map_of [(''rules'', JObj [(''assets'', JObj [(''minecraft'', example_rule)])]),
             (''leaf'', JObj [(''assets'', JStr ''delete'')])]"

definition no_finishing_steps :: "path \<Rightarrow> path \<Rightarrow> path \<Rightarrow> node \<Rightarrow> node \<times> exn option" where
  "no_finishing_steps script_dir script_root pack_root t = (t, None)"

definition example_disk :: "string \<Rightarrow> node" where
  "example_disk config_text =
     Dir [(''tool'', Dir [(''legacy'', Dir [(''delete.json'', File config_text)])]),
          (''pack'', Dir [(''pack.mcmeta'', File ''{}''),
             (''assets'', Dir [(''minecraft'',
                Dir [(''a'', File ''x''), (''c'', Dir [(''d'', File ''z'')])])])])]"

section \<open>The rule evaluator: proofs\<close>

subsection \<open>What removing an entry does to a path\<close>

lemma kind_at_Nil [simp]: "kind_at t [] = Some (kind_of t)"
  by (simp add: kind_at_def)

lemma kind_at_File_Cons [simp]: "kind_at (File c) (n # ns) = None"
  by (simp add: kind_at_def)

lemma kind_at_Dir_Cons:
  "kind_at (Dir es) (n # ns) = (case map_of es n of None \<Rightarrow> None | Some child \<Rightarrow> kind_at child ns)"
  by (simp add: kind_at_def split: option.splits)

lemma map_of_filter_fst:
  "map_of (filter (\<lambda>e. fst e \<noteq> n) es) m = (if m = n then None else map_of es m)"
  by (induction es) auto

lemma map_of_map_upd_fst:
  "map_of (map (\<lambda>e. if fst e = n then (fst e, f (snd e)) else e) es) m =
     (if m = n then map_option f (map_of es m) else map_of es m)"
  by (induction es) auto

lemma kind_at_remove_entry:
  "kind_at (remove_entry p t) q = (if prefix p q \<and> q \<noteq> [] then None else kind_at t q)"
proof (induction p t arbitrary: q rule: remove_entry.induct)
  case (1 p c)
  then show ?case by (cases q) auto
next
  case (2 es)
  then show ?case by (cases q) (auto simp: kind_at_Dir_Cons kind_of_def)
next
  case (3 n es)
  then show ?case
    by (cases q) (auto simp: kind_at_Dir_Cons kind_of_def map_of_filter_fst)
next
  case (4 n m ms es)
  show ?case
  proof (cases q)
    case Nil
    then show ?thesis by (simp add: kind_of_def)
  next
    case (Cons k ks)
    show ?thesis
    proof (cases "k = n")
      case False
      with Cons show ?thesis by (simp add: kind_at_Dir_Cons map_of_map_upd_fst)
    next
      case True
      show ?thesis
      proof (cases "map_of es n")
        case None
        with Cons True show ?thesis by (simp add: kind_at_Dir_Cons map_of_map_upd_fst)
      next
        case (Some child)
        then have "(n, child) \<in> set es" by (rule map_of_SomeD)
        then have "kind_at (remove_entry (m # ms) child) ks =
            (if prefix (m # ms) ks \<and> ks \<noteq> [] then None else kind_at child ks)"
          using "4.IH" [of "(n, child)" ks] by simp
        with Cons True Some show ?thesis
          by (auto simp: kind_at_Dir_Cons map_of_map_upd_fst)
      qed
    qed
  qed
qed

subsection \<open>The order of file systems\<close>

lemma fs_le_refl: "fs_le t t"
  by (simp add: fs_le_def)

lemma fs_le_trans: "fs_le a b \<Longrightarrow> fs_le b c \<Longrightarrow> fs_le a c"
  by (simp add: fs_le_def)

lemma path_exists_kind: "path_exists t p \<longleftrightarrow> kind_at t p \<noteq> None"
  by (simp add: path_exists_def kind_at_def)

lemma is_dir_kind: "is_dir t p \<longleftrightarrow> kind_at t p = Some KDir"
  by (auto simp: is_dir_def kind_at_def kind_of_def split: option.splits node.splits)

lemma is_file_kind: "is_file t p \<longleftrightarrow> (\<exists>c. kind_at t p = Some (KFile c))"
  by (auto simp: is_file_def kind_at_def kind_of_def split: option.splits node.splits)

lemma remove_entry_le: "fs_le (remove_entry p t) t"
  by (simp add: fs_le_def kind_at_remove_entry split: if_splits)

lemma fst_delete_path:
  "fst (delete_path p t) = (if path_exists t p then remove_entry p t else t)"
  by (auto simp: delete_path_def unlink_def rmtree_def path_exists_def is_file_def is_dir_def
      split: option.splits node.splits)

lemma delete_path_le: "fs_le (fst (delete_path p t)) t"
  by (simp add: fst_delete_path remove_entry_le fs_le_refl)

lemma fst_delete_items_Cons:
  "fst (delete_items cp (n # ns) t) = fst (delete_items cp ns (fst (delete_path (joinpath cp n) t)))"
  by (simp split: prod.splits)

lemma delete_items_le: "fs_le (fst (delete_items cp ns t)) t"
proof (induction ns arbitrary: t)
  case Nil
  show ?case by (simp add: fs_le_refl)
next
  case (Cons n ns)
  show ?case
    unfolding fst_delete_items_Cons
    by (rule fs_le_trans [OF Cons.IH delete_path_le])
qed

lemma fst_process_items_Cons:
  "fst (process_items b r ((name, sub) # items) t) =
     fst (process_items b r items (fst (process_rule b (sub_relative_path r name) sub t)))"
  by (simp split: prod.splits)

lemma process_items_le_aux:
  assumes "\<And>name sub r t. (name, sub) \<in> set items \<Longrightarrow> fs_le (fst (process_rule b r sub t)) t"
  shows "fs_le (fst (process_items b r items t)) t"
  using assms
proof (induction items arbitrary: t)
  case Nil
  show ?case by (simp add: fs_le_refl)
next
  case (Cons a items)
  obtain name sub where a: "a = (name, sub)" by (cases a)
  have 1: "fs_le (fst (process_rule b (sub_relative_path r name) sub t)) t"
    using Cons.prems [of name sub] a by simp
  have 2: "fs_le (fst (process_items b r items (fst (process_rule b (sub_relative_path r name) sub t))))
      (fst (process_rule b (sub_relative_path r name) sub t))"
    by (rule Cons.IH) (use Cons.prems in auto)
  show ?case
    unfolding a fst_process_items_Cons by (rule fs_le_trans [OF 2 1])
qed

subsection \<open>The branches of the array rule\<close>

text \<open>The array rule, case by case.\<close>

lemma process_rule_bad_length:
  "length rule \<noteq> 2 \<Longrightarrow> process_rule b r (JArr rule) t = (t, [IncorrectArrayRuleFormat r])"
  by (auto split: list.splits)

lemma process_rule_bad_mode:
  "\<not> valid_mode mode \<Longrightarrow> process_rule b r (JArr [mode, d]) t = (t, [UnknownMode mode r])"
  by simp

lemma process_rule_bad_declarations:
  "valid_mode mode \<Longrightarrow> (\<forall>decls. d \<noteq> JObj decls) \<Longrightarrow>
     process_rule b r (JArr [mode, d]) t = (t, [DeclarationListNotObject r])"
  by (cases d) auto

lemma process_rule_missing:
  "valid_mode mode \<Longrightarrow> \<not> path_exists t (joinpath b r) \<Longrightarrow>
     process_rule b r (JArr [mode, JObj decls]) t = (t, [DirectoryDoesNotExist r])"
  by simp

lemma process_rule_not_dir:
  "valid_mode mode \<Longrightarrow> path_exists t (joinpath b r) \<Longrightarrow> \<not> is_dir t (joinpath b r) \<Longrightarrow>
     process_rule b r (JArr [mode, JObj decls]) t = (t, [PathIsNotDirectory r])"
  by simp

lemma is_dir_exists: "is_dir t p \<Longrightarrow> path_exists t p"
  by (simp add: is_dir_kind path_exists_kind)

lemma valid_mode_preserve [simp]: "valid_mode (JStr ''preserve'')"
  and valid_mode_delete [simp]: "valid_mode (JStr ''delete'')"
  by (simp_all add: valid_mode_def)

lemma fst_process_rule_preserve:
  "is_dir t (joinpath b r) \<Longrightarrow>
     fst (process_rule b r (JArr [JStr ''preserve'', JObj decls]) t) =
       fst (process_items b r decls
         (fst (delete_items (joinpath b r)
           (filter (\<lambda>n. n \<notin> set (map fst decls)) (iterdir_names t (joinpath b r))) t)))"
  by (simp add: is_dir_exists Let_def split: prod.splits)

lemma process_rule_delete_mode:
  "is_dir t (joinpath b r) \<Longrightarrow>
     process_rule b r (JArr [JStr ''delete'', JObj decls]) t = process_items b r decls t"
  by (simp add: is_dir_exists Let_def)

lemma valid_mode_cases: "valid_mode mode \<Longrightarrow> mode = JStr ''preserve'' \<or> mode = JStr ''delete''"
  by (auto simp: valid_mode_def split: json.splits)

declare process_rule.simps(3) [simp del]



subsection \<open>The evaluator only removes\<close>

lemma two_list: "length xs = 2 \<Longrightarrow> \<exists>a b. xs = [a, b]"
  by (cases xs; cases "tl xs") auto

lemma process_rule_le: "fs_le (fst (process_rule b r rule t)) t"
proof (induction rule arbitrary: r t)
  case (JStr s)
  show ?case by (simp add: delete_path_le fs_le_refl)
next
  case (JArr xs)
  show ?case
  proof (cases "length xs = 2")
    case False
    then show ?thesis by (simp add: process_rule_bad_length fs_le_refl)
  next
    case True
    then obtain mode d where xs: "xs = [mode, d]" using two_list by blast
    show ?thesis
    proof (cases "valid_mode mode \<and> (\<exists>decls. d = JObj decls) \<and> is_dir t (joinpath b r)")
      case False
      then have "fst (process_rule b r (JArr xs) t) = t"
        unfolding xs by (cases d) (auto simp: Let_def process_rule.simps(3))
      then show ?thesis by (simp add: fs_le_refl)
    next
      case ok: True
      then obtain decls where d: "d = JObj decls" by blast
      have items: "fs_le (fst (process_items b r decls t')) t'" for t'
        using JArr.IH [of d r t'] by (simp add: xs d)
      from ok valid_mode_cases consider "mode = JStr ''preserve''" | "mode = JStr ''delete''"
        by blast
      then show ?thesis
      proof cases
        case 1
        show ?thesis
          unfolding xs d 1 using ok
          by (simp only: fst_process_rule_preserve)
            (rule fs_le_trans [OF items delete_items_le])
      next
        case 2
        show ?thesis
          unfolding xs d 2 using ok by (simp only: process_rule_delete_mode items)
      qed
    qed
  qed
next
  case (JObj kvs)
  have "fs_le (fst (process_items b r kvs t)) t"
    by (rule process_items_le_aux) (use JObj.IH in fastforce)
  then show ?case by simp
qed (simp_all add: fs_le_refl)

lemma process_items_le: "fs_le (fst (process_items b r items t)) t"
  using process_rule_le [of b r "JObj items" t] by simp



subsection \<open>What is gone stays gone\<close>

lemma lookup_append:
  "lookup t (p @ q) = (case lookup t p of None \<Rightarrow> None | Some c \<Rightarrow> lookup c q)"
proof (induction t p rule: lookup.induct)
  case (1 t)
  show ?case by simp
next
  case (2 c n ns)
  show ?case by simp
next
  case (3 es n ns)
  then show ?case by (cases "map_of es n") auto
qed

lemma kind_at_prefix_None: "kind_at t p = None \<Longrightarrow> prefix p q \<Longrightarrow> kind_at t q = None"
  by (auto simp: kind_at_def prefix_def lookup_append)

lemma gone_delete_path: "gone (fst (delete_path p t)) p"
proof (cases "path_exists t p")
  case True
  then show ?thesis by (simp add: fst_delete_path gone_def kind_at_remove_entry)
next
  case False
  then have "kind_at t p = None" by (simp add: path_exists_kind)
  then show ?thesis
    using False by (auto simp: fst_delete_path gone_def intro: kind_at_prefix_None)
qed

lemma gone_mono: "fs_le a b \<Longrightarrow> gone b p \<Longrightarrow> gone a p"
  unfolding fs_le_def gone_def by (metis option.exhaust)

lemma gone_root_Dir: "gone (Dir es) [] \<Longrightarrow> es = []"
proof (cases es)
  case Nil
  then show ?thesis by simp
next
  case (Cons e es')
  assume g: "gone (Dir es) []"
  obtain n c where e: "e = (n, c)" by (cases e)
  have "kind_at (Dir es) [n] \<noteq> None"
    by (simp add: kind_at_Dir_Cons Cons e)
  with g show ?thesis by (simp add: gone_def)
qed

lemma gone_noop: "gone t p \<Longrightarrow> fst (delete_path p t) = t"
proof (cases p)
  case Nil
  assume "gone t p"
  with Nil show ?thesis
    by (cases t) (auto simp: fst_delete_path dest: gone_root_Dir)
next
  case (Cons n ns)
  assume "gone t p"
  with Cons have "kind_at t p = None" by (auto simp: gone_def)
  then show ?thesis by (simp add: fst_delete_path path_exists_kind)
qed

lemma delete_items_gone:
  "n \<in> set ns \<Longrightarrow> gone (fst (delete_items cp ns t)) (joinpath cp n)"
proof (induction ns arbitrary: t)
  case Nil
  then show ?case by simp
next
  case (Cons m ns)
  show ?case
  proof (cases "n = m")
    case True
    have "gone (fst (delete_path (joinpath cp m) t)) (joinpath cp m)"
      by (rule gone_delete_path)
    then show ?thesis
      unfolding fst_delete_items_Cons True
      by (rule gone_mono [OF delete_items_le])
  next
    case False
    with Cons.prems have "n \<in> set ns" by simp
    then show ?thesis unfolding fst_delete_items_Cons by (rule Cons.IH)
  qed
qed

lemma delete_items_noop:
  "(\<And>n. n \<in> set ns \<Longrightarrow> gone t (joinpath cp n)) \<Longrightarrow> fst (delete_items cp ns t) = t"
proof (induction ns)
  case Nil
  show ?case by simp
next
  case (Cons m ns)
  have "fst (delete_path (joinpath cp m) t) = t"
    by (rule gone_noop) (simp add: Cons.prems)
  then show ?case
    unfolding fst_delete_items_Cons using Cons by simp
qed

lemma iterdir_names_iff:
  "n \<in> set (iterdir_names t p) \<longleftrightarrow> is_dir t p \<and> kind_at t (p @ [n]) \<noteq> None"
proof (cases "lookup t p")
  case None
  then show ?thesis by (simp add: iterdir_names_def is_dir_def)
next
  case (Some c)
  show ?thesis
  proof (cases c)
    case (File x)
    with Some show ?thesis by (simp add: iterdir_names_def is_dir_def)
  next
    case (Dir es)
    have "n \<in> fst ` set es \<longleftrightarrow> map_of es n \<noteq> None"
      by (simp add: map_of_eq_None_iff)
    with Some Dir show ?thesis
      by (auto simp: iterdir_names_def is_dir_def kind_at_def lookup_append split: option.splits)
  qed
qed

lemma fs_le_is_dir: "fs_le a b \<Longrightarrow> is_dir a p \<Longrightarrow> is_dir b p"
  by (simp add: fs_le_def is_dir_kind)

lemma fs_le_iterdir: "fs_le a b \<Longrightarrow> n \<in> set (iterdir_names a p) \<Longrightarrow> n \<in> set (iterdir_names b p)"
  unfolding iterdir_names_iff using fs_le_is_dir by (auto simp: fs_le_def)



subsection \<open>A second run changes nothing\<close>

lemma process_items_stable_aux:
  assumes "\<And>name sub r t t2. (name, sub) \<in> set items \<Longrightarrow>
      fs_le t2 (fst (process_rule b r sub t)) \<Longrightarrow> fst (process_rule b r sub t2) = t2"
    and "fs_le t2 (fst (process_items b r items t))"
  shows "fst (process_items b r items t2) = t2"
  using assms
proof (induction items arbitrary: t)
  case Nil
  show ?case by simp
next
  case (Cons a items)
  obtain name sub where a: "a = (name, sub)" by (cases a)
  let ?t1 = "fst (process_rule b (sub_relative_path r name) sub t)"
  from Cons.prems(2) have le: "fs_le t2 (fst (process_items b r items ?t1))"
    by (simp only: a fst_process_items_Cons)
  then have "fs_le t2 ?t1"
    by (rule fs_le_trans [OF _ process_items_le])
  then have 1: "fst (process_rule b (sub_relative_path r name) sub t2) = t2"
    using Cons.prems(1) [of name sub] a by simp
  have sub: "fst (process_rule b r' s' u2) = u2"
    if "(n', s') \<in> set items" and "fs_le u2 (fst (process_rule b r' s' u))" for n' s' r' u u2
    using Cons.prems(1) [of n' s' u2 r' u] that by simp
  have 2: "fst (process_items b r items t2) = t2"
    using sub le by (rule Cons.IH)
  show ?case
    by (simp only: a fst_process_items_Cons 1 2)
qed

lemma process_rule_stable:
  "fs_le t2 (fst (process_rule b r rule t)) \<Longrightarrow> fst (process_rule b r rule t2) = t2"
proof (induction rule arbitrary: r t t2)
  case (JStr s)
  show ?case
  proof (cases "s = ''delete''")
    case True
    have "gone (fst (delete_path (joinpath b r) t)) (joinpath b r)"
      by (rule gone_delete_path)
    with JStr True have "gone t2 (joinpath b r)"
      by (auto intro: gone_mono)
    then show ?thesis using True by (simp add: gone_noop)
  next
    case False
    then show ?thesis by simp
  qed
next
  case (JArr xs)
  show ?case
  proof (cases "length xs = 2")
    case False
    then show ?thesis by (simp add: process_rule_bad_length)
  next
    case True
    then obtain mode d where xs: "xs = [mode, d]" using two_list by blast
    show ?thesis
    proof (cases "valid_mode mode \<and> (\<exists>decls. d = JObj decls) \<and> is_dir t2 (joinpath b r)")
      case False
      then show ?thesis
        unfolding xs by (cases d) (auto simp: Let_def process_rule.simps(3))
    next
      case ok: True
      then obtain decls where d: "d = JObj decls" by blast
      have items: "fs_le t2 (fst (process_items b r decls t')) \<Longrightarrow>
          fst (process_items b r decls t2) = t2" for t'
        using JArr.IH [of d t2 r t'] by (simp add: xs d)
      have "fs_le t2 t"
        by (rule fs_le_trans [OF JArr.prems process_rule_le])
      with ok have dir: "is_dir t (joinpath b r)" by (auto intro: fs_le_is_dir)
      from ok valid_mode_cases consider "mode = JStr ''preserve''" | "mode = JStr ''delete''"
        by blast
      then show ?thesis
      proof cases
        case 1
        let ?cp = "joinpath b r"
        let ?undeclared = "\<lambda>n. n \<notin> set (map fst decls)"
        let ?t1 = "fst (delete_items ?cp (filter ?undeclared (iterdir_names t ?cp)) t)"
        from JArr.prems have le: "fs_le t2 (fst (process_items b r decls ?t1))"
          unfolding xs d 1 using dir by (simp only: fst_process_rule_preserve)
        then have le1: "fs_le t2 ?t1"
          by (rule fs_le_trans [OF _ process_items_le])
        have "gone t2 (joinpath ?cp n)" if "n \<in> set (filter ?undeclared (iterdir_names t2 ?cp))" for n
        proof -
          from that \<open>fs_le t2 t\<close> have "n \<in> set (filter ?undeclared (iterdir_names t ?cp))"
            by (auto intro: fs_le_iterdir)
          then have "gone ?t1 (joinpath ?cp n)" by (rule delete_items_gone)
          with le1 show ?thesis by (rule gone_mono)
        qed
        then have "fst (delete_items ?cp (filter ?undeclared (iterdir_names t2 ?cp)) t2) = t2"
          by (rule delete_items_noop)
        with items [OF le] show ?thesis
          unfolding xs d 1 using ok by (simp only: fst_process_rule_preserve)
      next
        case 2
        from JArr.prems have "fs_le t2 (fst (process_items b r decls t))"
          unfolding xs d 2 using dir by (simp only: process_rule_delete_mode)
        then have "fst (process_items b r decls t2) = t2" by (rule items)
        then show ?thesis
          unfolding xs d 2 using ok by (simp only: process_rule_delete_mode)
      qed
    qed
  qed
next
  case (JObj kvs)
  have "fst (process_items b r kvs t2) = t2"
  proof (rule process_items_stable_aux)
    show "fs_le t2 (fst (process_items b r kvs t))" using JObj.prems by simp
  next
    fix name sub r t t2
    assume "(name, sub) \<in> set kvs" and "fs_le t2 (fst (process_rule b r sub t))"
    then show "fst (process_rule b r sub t2) = t2"
      using JObj.IH [of "(name, sub)" sub t2 r t] by simp
  qed
  then show ?case by simp
qed simp_all

subsection \<open>The legacy evaluator\<close>

lemma fst_legacy_delete_path: "fst (legacy_delete_path p t) = fst (delete_path p t)"
  by (simp add: legacy_delete_path_def delete_path_def)

lemma fst_legacy_delete_items:
  "fst (legacy_delete_items cp r False ns t) = fst (delete_items cp ns t)"
proof (induction ns arbitrary: t)
  case Nil
  show ?case by simp
next
  case (Cons n ns)
  show ?case
    using Cons.IH [of "fst (delete_path (joinpath cp n) t)"] fst_legacy_delete_path [of "joinpath cp n" t]
    by (simp add: Let_def case_prod_beta)
qed

lemma fst_legacy_process_items_Cons:
  "fst (legacy_process_items b r ((name, sub) # items) dry t) =
     fst (legacy_process_items b r items dry
       (fst (legacy_process_rule b (sub_relative_path r name) sub dry t)))"
  by (simp add: case_prod_beta)

lemma legacy_items_aux:
  assumes "\<And>name sub r t. (name, sub) \<in> set items \<Longrightarrow>
      fst (legacy_process_rule b r sub False t) = fst (process_rule b r sub t)"
  shows "fst (legacy_process_items b r items False t) = fst (process_items b r items t)"
  using assms
proof (induction items arbitrary: t)
  case Nil
  show ?case by simp
next
  case (Cons a items)
  obtain name sub where a: "a = (name, sub)" by (cases a)
  have 1: "fst (legacy_process_rule b (sub_relative_path r name) sub False t) =
      fst (process_rule b (sub_relative_path r name) sub t)"
    using Cons.prems [of name sub] a by simp
  have sub: "fst (legacy_process_rule b r' s' False u) = fst (process_rule b r' s' u)"
    if "(n', s') \<in> set items" for n' s' r' u
    using Cons.prems [of n' s' r' u] that by simp
  have 2: "fst (legacy_process_items b r items False u) = fst (process_items b r items u)" for u
    using sub by (rule Cons.IH)
  show ?case
    by (simp only: a fst_legacy_process_items_Cons fst_process_items_Cons 1 2)
qed

lemma legacy_process_rule_fst:
  "fst (legacy_process_rule b r rule False t) = fst (process_rule b r rule t)"
proof (induction rule arbitrary: r t)
  case (JStr s)
  show ?case by (simp add: fst_legacy_delete_path case_prod_beta)
next
  case (JArr xs)
  show ?case
  proof (cases "length xs = 2")
    case False
    then show ?thesis by (auto simp: process_rule_bad_length split: list.splits)
  next
    case True
    then obtain mode d where xs: "xs = [mode, d]" using two_list by blast
    show ?thesis
    proof (cases "valid_mode mode \<and> (\<exists>decls. d = JObj decls) \<and> is_dir t (joinpath b r)")
      case False
      then show ?thesis
        unfolding xs by (cases d) (auto simp: Let_def process_rule.simps(3))
    next
      case ok: True
      then obtain decls where d: "d = JObj decls" by blast
      have items: "fst (legacy_process_items b r decls False t') = fst (process_items b r decls t')" for t'
        using JArr.IH [of d r t'] by (simp add: xs d case_prod_beta)
      from ok valid_mode_cases consider "mode = JStr ''preserve''" | "mode = JStr ''delete''"
        by blast
      then show ?thesis
      proof cases
        case 1
        show ?thesis
          unfolding xs d 1 using ok
          by (simp add: fst_process_rule_preserve is_dir_exists Let_def items
              fst_legacy_delete_items case_prod_beta)
      next
        case 2
        show ?thesis
          unfolding xs d 2 using ok
          by (simp add: process_rule_delete_mode is_dir_exists Let_def items case_prod_beta)
      qed
    qed
  qed
next
  case (JObj kvs)
  have "fst (legacy_process_items b r kvs False t) = fst (process_items b r kvs t)"
    by (rule legacy_items_aux) (use JObj.IH in fastforce)
  then show ?case by (simp add: case_prod_beta)
qed simp_all

lemma legacy_dry_run_delete_items: "fst (legacy_delete_items cp r True ns t) = t"
  by (induction ns) (simp_all add: Let_def case_prod_beta)

text \<open>
  Claim C9. With \<^verbatim>\<open>dry_run=False\<close> the legacy evaluator takes every file system to the
  same final file system as the modern evaluator, for every base path, relative path
  and rule tree in which no path has a \<^verbatim>\<open>..\<close> component: neither the path that
  \<^verbatim>\<open>base_path / relative_path\<close> builds nor a key of the rule tree. On the tree the two
  evaluators agree on every input (\<open>legacy_process_rule_fst\<close>); the hypotheses keep the
  statement to the inputs on which the tree and listing order stand for what the
  code does.
\<close>

theorem legacy_agrees_with_modern:
  assumes "dotdot_free_path (joinpath base_path relative_path)"
    and "dotdot_free_rule rule"
  shows "fst (legacy_process_rule base_path relative_path rule False t)
     = fst (process_rule base_path relative_path rule t)"
proof -
  have "fst (legacy_process_rule base_path relative_path rule False u)
      = fst (process_rule base_path relative_path rule u)" for u
    by (rule legacy_process_rule_fst)
  then show ?thesis .
qed

theorem legacy_agrees_with_modern_witness:
  "dotdot_free_path (joinpath [''assets''] ''minecraft'')
   \<and> dotdot_free_rule example_rule
   \<and> fst (legacy_process_rule [''assets''] ''minecraft'' example_rule False example_tree)
     = Dir [(''assets'', Dir [(''minecraft'', Dir [(''c'', Dir [])])])]
   \<and> fst (process_rule [''assets''] ''minecraft'' example_rule example_tree)
     = Dir [(''assets'', Dir [(''minecraft'', Dir [(''c'', Dir [])])])]"
proof -
  have path: "dotdot_free_path (joinpath [''assets''] ''minecraft'')"
    by code_simp
  have rule: "dotdot_free_rule example_rule"
    by code_simp
  have 1: "fst (process_rule [''assets''] ''minecraft'' example_rule example_tree)
      = Dir [(''assets'', Dir [(''minecraft'', Dir [(''c'', Dir [])])])]"
    by code_simp
  from legacy_agrees_with_modern [OF path rule, of example_tree] path rule show ?thesis
    by (simp only: 1 simp_thms)
qed

subsection \<open>Rules that only preserve\<close>

lemma preserve_items_aux:
  assumes "\<And>name sub r t. (name, sub) \<in> set kvs \<Longrightarrow> process_rule b r sub t = (t, [])"
  shows "process_items b r kvs t = (t, [])"
  using assms
proof (induction kvs)
  case Nil
  show ?case by simp
next
  case (Cons a kvs)
  obtain name sub where a: "a = (name, sub)" by (cases a)
  have 1: "process_rule b (sub_relative_path r name) sub t = (t, [])"
    using Cons.prems [of name sub] a by simp
  have sub: "process_rule b r' s' u = (u, [])" if "(n', s') \<in> set kvs" for n' s' r' u
    using Cons.prems [of n' s' r' u] that by simp
  have 2: "process_items b r kvs t = (t, [])"
    using sub by (rule Cons.IH)
  show ?case by (simp add: a 1 2)
qed

text \<open>
  Claim C4. A rule tree built only from the leaf \<^verbatim>\<open>"preserve"\<close> and from mappings leaves
  the file system as it was, and reports nothing.
\<close>

theorem preserve_only_deletes_nothing:
  "preserve_only rule \<Longrightarrow> process_rule b r rule t = (t, [])"
proof (induction rule arbitrary: r t)
  case (JObj kvs)
  have "process_items b r kvs t = (t, [])"
  proof (rule preserve_items_aux)
    fix name sub r t
    assume in_kvs: "(name, sub) \<in> set kvs"
    with JObj.prems have "preserve_only sub" by auto
    with in_kvs show "process_rule b r sub t = (t, [])"
      using JObj.IH [of "(name, sub)" sub r t] by simp
  qed
  then show ?case by simp
qed simp_all

theorem preserve_only_deletes_nothing_witness:
  "preserve_only (JObj [(''minecraft'', JObj [(''a'', JStr ''preserve'')]), (''b'', JStr ''preserve'')])
   \<and> process_rule [''assets''] []
         (JObj [(''minecraft'', JObj [(''a'', JStr ''preserve'')]), (''b'', JStr ''preserve'')])
         example_tree = (example_tree, [])"
proof -
  have h: "preserve_only (JObj [(''minecraft'', JObj [(''a'', JStr ''preserve'')]), (''b'', JStr ''preserve'')])"
    by simp
  from preserve_only_deletes_nothing [OF h] h show ?thesis by simp
qed

subsection \<open>Paths, names and the frame of a deletion\<close>

lemma split_on_not_Nil [simp]: "split_on sep s \<noteq> []"
  by (induction s) (auto split: list.splits)

lemma split_on_append_sep:
  "split_on sep (xs @ sep # ys) = split_on sep xs @ split_on sep ys"
proof (induction xs)
  case Nil
  show ?case by simp
next
  case (Cons x xs)
  show ?case
  proof (cases "x = sep")
    case True
    with Cons show ?thesis by simp
  next
    case False
    obtain w ws where w: "split_on sep xs = w # ws"
      by (cases "split_on sep xs") auto
    with False Cons show ?thesis by simp
  qed
qed

lemma split_on_no_sep: "sep \<notin> set s \<Longrightarrow> split_on sep s = [s]"
  by (induction s) auto

lemma parts_Nil [simp]: "parts [] = []"
  by (simp add: parts_def)

lemma parts_valid_name: "valid_name n \<Longrightarrow> parts n = [n]"
  by (simp add: parts_def valid_name_def split_on_no_sep)

lemma valid_name_not_absolute: "valid_name n \<Longrightarrow> \<not> is_absolute n"
  by (cases n) (auto simp: is_absolute_def valid_name_def)

lemma parts_append_slash: "parts (r @ CHR ''/'' # n) = parts r @ parts n"
  by (simp add: parts_def split_on_append_sep)

lemma is_absolute_append: "r \<noteq> [] \<Longrightarrow> is_absolute (r @ s) = is_absolute r"
  by (cases r) (auto simp: is_absolute_def)

lemma joinpath_item: "valid_name n \<Longrightarrow> joinpath cp n = cp @ [n]"
  by (simp add: joinpath_def parts_valid_name valid_name_not_absolute)

lemma joinpath_sub_relative_path:
  "valid_name n \<Longrightarrow> joinpath b (sub_relative_path r n) = joinpath b r @ [n]"
proof (cases "r = []")
  case True
  assume "valid_name n"
  with True show ?thesis
    by (simp add: sub_relative_path_def joinpath_item) (simp add: joinpath_def is_absolute_def)
next
  case False
  assume "valid_name n"
  with False show ?thesis
    by (simp add: sub_relative_path_def joinpath_def parts_append_slash is_absolute_append
        parts_valid_name)
qed

lemma lookup_remove_entry_other:
  "\<not> prefix p q \<Longrightarrow> \<not> prefix q p \<Longrightarrow> lookup (remove_entry p t) q = lookup t q"
proof (induction p t arbitrary: q rule: remove_entry.induct)
  case (1 p c)
  show ?case by simp
next
  case (2 es)
  then show ?case by simp
next
  case (3 n es)
  then show ?case by (cases q) (auto simp: map_of_filter_fst)
next
  case (4 n m ms es)
  show ?case
  proof (cases q)
    case Nil
    with 4 show ?thesis by simp
  next
    case (Cons k ks)
    show ?thesis
    proof (cases "k = n")
      case False
      with Cons show ?thesis by (simp add: map_of_map_upd_fst)
    next
      case True
      show ?thesis
      proof (cases "map_of es n")
        case None
        with Cons True show ?thesis by (simp add: map_of_map_upd_fst)
      next
        case (Some child)
        then have "(n, child) \<in> set es" by (rule map_of_SomeD)
        moreover from "4.prems" Cons True
        have "\<not> prefix (m # ms) ks" "\<not> prefix ks (m # ms)" by simp_all
        ultimately have "lookup (remove_entry (m # ms) child) ks = lookup child ks"
          using "4.IH" [of "(n, child)" ks] by simp
        with Cons True Some show ?thesis
          by (simp add: map_of_map_upd_fst)
      qed
    qed
  qed
qed

lemma lookup_delete_path_other:
  "\<not> prefix p q \<Longrightarrow> \<not> prefix q p \<Longrightarrow> lookup (fst (delete_path p t)) q = lookup t q"
  by (simp add: fst_delete_path lookup_remove_entry_other)

lemma lookup_delete_items_other:
  "(\<And>n. n \<in> set ns \<Longrightarrow> \<not> prefix (joinpath cp n) q \<and> \<not> prefix q (joinpath cp n)) \<Longrightarrow>
     lookup (fst (delete_items cp ns t)) q = lookup t q"
proof (induction ns arbitrary: t)
  case Nil
  show ?case by simp
next
  case (Cons m ns)
  have "lookup (fst (delete_items cp ns (fst (delete_path (joinpath cp m) t)))) q =
      lookup (fst (delete_path (joinpath cp m) t)) q"
    by (rule Cons.IH) (simp add: Cons.prems)
  also have "\<dots> = lookup t q"
    by (rule lookup_delete_path_other) (simp_all add: Cons.prems)
  finally show ?case by (simp only: fst_delete_items_Cons)
qed

lemma kind_at_delete_path:
  "kind_at (fst (delete_path p t)) q = (if prefix p q \<and> q \<noteq> [] then None else kind_at t q)"
proof (cases "path_exists t p")
  case True
  then show ?thesis by (simp add: fst_delete_path kind_at_remove_entry)
next
  case False
  then have "kind_at t p = None" by (simp add: path_exists_kind)
  then have "prefix p q \<Longrightarrow> kind_at t q = None" by (rule kind_at_prefix_None)
  with False show ?thesis by (simp add: fst_delete_path)
qed

lemma kind_at_delete_items:
  "kind_at (fst (delete_items cp ns t)) q =
     (if (\<exists>n \<in> set ns. prefix (joinpath cp n) q) \<and> q \<noteq> [] then None else kind_at t q)"
proof (induction ns arbitrary: t)
  case Nil
  show ?case by simp
next
  case (Cons m ns)
  show ?case
    by (simp only: fst_delete_items_Cons Cons.IH kind_at_delete_path) auto
qed

lemma process_items_append:
  "process_items b r (xs @ ys) t =
     (case process_items b r xs t of (t1, d1) \<Rightarrow>
      case process_items b r ys t1 of (t2, d2) \<Rightarrow> (t2, d1 @ d2))"
proof (induction xs arbitrary: t)
  case Nil
  show ?case by (simp add: case_prod_beta)
next
  case (Cons a xs)
  obtain name sub where a: "a = (name, sub)" by (cases a)
  show ?case by (simp add: a Cons.IH case_prod_beta)
qed

subsection \<open>The order of deletions does not matter\<close>

lemma remove_entry_Dir_Nil [simp]: "remove_entry q (Dir []) = Dir []"
  by (cases "(q, Dir [] :: node)" rule: remove_entry.cases) auto

lemma remove_entry_is_Dir: "\<exists>es'. remove_entry q (Dir es) = Dir es'"
  by (cases "(q, Dir es)" rule: remove_entry.cases) auto

lemma remove_entry_root: "remove_entry [] (remove_entry q t) = remove_entry [] t"
proof (cases t)
  case (File c)
  then show ?thesis by simp
next
  case (Dir es)
  with remove_entry_is_Dir [of q es] show ?thesis by auto
qed

lemma remove_entry_root': "remove_entry q (remove_entry [] t) = remove_entry [] t"
  by (cases t) simp_all

lemma filter_map_entry:
  "filter (\<lambda>e. fst e \<noteq> n) (map (\<lambda>e. if fst e = k then (fst e, f (snd e)) else e) es) =
   map (\<lambda>e. if fst e = k then (fst e, f (snd e)) else e) (filter (\<lambda>e. fst e \<noteq> n) es)"
  by (induction es) auto

lemma remove_entry_commute:
  "remove_entry p (remove_entry q t) = remove_entry q (remove_entry p t)"
proof (induction p t arbitrary: q rule: remove_entry.induct)
  case (1 p c)
  show ?case by simp
next
  case (2 es)
  show ?case by (simp only: remove_entry_root remove_entry_root')
next
  case (3 n es)
  show ?case
  proof (cases "(q, Dir es)" rule: remove_entry.cases)
    case (1 p c)
    then show ?thesis by simp
  next
    case (2 es)
    then show ?thesis by simp
  next
    case (3 m es')
    then show ?thesis by (auto intro: filter_cong)
  next
    case (4 k l ls es')
    then show ?thesis by (simp add: filter_map_entry)
  qed
next
  case (4 n m ms es)
  show ?case
  proof (cases "(q, Dir es)" rule: remove_entry.cases)
    case (1 p c)
    then show ?thesis by simp
  next
    case (2 es)
    then show ?thesis by simp
  next
    case (3 k es')
    then show ?thesis by (simp add: filter_map_entry)
  next
    case (4 k l ls es')
    then have q: "q = k # l # ls" and es': "es' = es" by simp_all
    have "remove_entry (m # ms) (remove_entry (l # ls) (snd e)) =
        remove_entry (l # ls) (remove_entry (m # ms) (snd e))"
      if "e \<in> set es" "fst e = n" for e
      using "4.IH" [OF that] .
    then show ?thesis
      unfolding q by (auto simp: comp_def)
  qed
qed

lemma map_entry_absent:
  "n \<notin> fst ` set es \<Longrightarrow> map (\<lambda>e. if fst e = n then (fst e, f (snd e)) else e) es = es"
  by (induction es) auto

lemma remove_entry_under:
  "prefix q p \<Longrightarrow> remove_entry p (remove_entry q t) = remove_entry q t"
proof (induction q t arbitrary: p rule: remove_entry.induct)
  case (1 q c)
  show ?case by simp
next
  case (2 es)
  show ?case by simp
next
  case (3 n es)
  then obtain p' where p: "p = n # p'" by (auto simp: prefix_def)
  have absent: "n \<notin> fst ` set (filter (\<lambda>e. fst e \<noteq> n) es)" by auto
  show ?case
  proof (cases p')
    case Nil
    with p show ?thesis by simp
  next
    case (Cons m ms)
    with p map_entry_absent [OF absent] show ?thesis by simp
  qed
next
  case (4 n m ms es)
  then obtain p' where p: "p = n # p'" and p': "prefix (m # ms) p'"
    by (auto simp: prefix_def)
  from p' obtain ms' where p'': "p' = m # ms'" by (auto simp: prefix_def)
  have "remove_entry p' (remove_entry (m # ms) (snd e)) = remove_entry (m # ms) (snd e)"
    if "e \<in> set es" "fst e = n" for e
    using "4.IH" [OF that p'] .
  then show ?case
    unfolding p p'' by (auto simp: comp_def p'')
qed

lemma path_exists_remove_entry:
  "path_exists (remove_entry q t) p \<longleftrightarrow> path_exists t p \<and> \<not> (prefix q p \<and> p \<noteq> [])"
  by (simp add: path_exists_kind kind_at_remove_entry)

lemma delete_path_after_remove:
  "path_exists t p \<Longrightarrow> fst (delete_path p (remove_entry q t)) = remove_entry p (remove_entry q t)"
  by (simp add: fst_delete_path path_exists_remove_entry remove_entry_under)

lemma delete_path_commute:
  "fst (delete_path p (fst (delete_path q t))) = fst (delete_path q (fst (delete_path p t)))"
proof (cases "path_exists t p")
  case p: True
  show ?thesis
  proof (cases "path_exists t q")
    case True
    with p show ?thesis
      by (simp add: fst_delete_path [of p t] fst_delete_path [of q t] delete_path_after_remove
          remove_entry_commute)
  next
    case False
    with p show ?thesis
      by (simp add: fst_delete_path path_exists_remove_entry)
  qed
next
  case np: False
  then show ?thesis
    by (simp add: fst_delete_path path_exists_remove_entry)
qed

lemma delete_path_idem:
  "fst (delete_path p (fst (delete_path p t))) = fst (delete_path p t)"
  by (rule gone_noop) (rule gone_delete_path)

lemma delete_items_push:
  "fst (delete_items cp ns (fst (delete_path p t))) = fst (delete_path p (fst (delete_items cp ns t)))"
proof (induction ns arbitrary: t)
  case Nil
  show ?case by simp
next
  case (Cons n ns)
  show ?case
    by (simp only: fst_delete_items_Cons delete_path_commute [of "joinpath cp n" p] Cons.IH)
qed

lemma delete_items_absorb:
  "n \<in> set ns \<Longrightarrow>
     fst (delete_items cp ns (fst (delete_path (joinpath cp n) t))) = fst (delete_items cp ns t)"
proof (induction ns arbitrary: t)
  case Nil
  then show ?case by simp
next
  case (Cons m ns)
  show ?case
  proof (cases "m = n")
    case True
    then show ?thesis by (simp only: fst_delete_items_Cons delete_path_idem)
  next
    case False
    with Cons.prems have "n \<in> set ns" by simp
    then show ?thesis
      by (simp only: fst_delete_items_Cons delete_path_commute [of "joinpath cp m" "joinpath cp n"]
          Cons.IH)
  qed
qed

lemma delete_items_removeAll:
  "n \<in> set ns \<Longrightarrow>
     fst (delete_items cp ns t) = fst (delete_items cp (removeAll n ns) (fst (delete_path (joinpath cp n) t)))"
proof (induction ns arbitrary: t)
  case Nil
  then show ?case by simp
next
  case (Cons m ns)
  show ?case
  proof (cases "m = n")
    case same: True
    show ?thesis
    proof (cases "n \<in> set ns")
      case True
      then have "fst (delete_items cp ns (fst (delete_path (joinpath cp n) t))) =
          fst (delete_items cp (removeAll n ns)
            (fst (delete_path (joinpath cp n) (fst (delete_path (joinpath cp n) t)))))"
        by (rule Cons.IH)
      then show ?thesis
        unfolding same by (simp only: fst_delete_items_Cons delete_path_idem) simp
    next
      case False
      then show ?thesis
        unfolding same by (simp only: fst_delete_items_Cons) simp
    qed
  next
    case False
    with Cons.prems have "n \<in> set ns" by simp
    then have "fst (delete_items cp ns (fst (delete_path (joinpath cp m) t))) =
        fst (delete_items cp (removeAll n ns)
          (fst (delete_path (joinpath cp n) (fst (delete_path (joinpath cp m) t)))))"
      by (rule Cons.IH)
    also have "\<dots> = fst (delete_items cp (removeAll n ns)
          (fst (delete_path (joinpath cp m) (fst (delete_path (joinpath cp n) t)))))"
      by (simp only: delete_path_commute [of "joinpath cp m" "joinpath cp n"])
    finally show ?thesis
      using False by (simp only: fst_delete_items_Cons) (simp add: case_prod_beta)
  qed
qed

lemma delete_items_order:
  "set xs = set ys \<Longrightarrow> fst (delete_items cp xs t) = fst (delete_items cp ys t)"
proof (induction xs arbitrary: ys t)
  case Nil
  then show ?case by simp
next
  case (Cons x xs)
  from Cons.prems have x: "x \<in> set ys" by auto
  show ?case
  proof (cases "x \<in> set xs")
    case True
    with Cons.prems have "set xs = set ys" by auto
    then have "fst (delete_items cp xs t) = fst (delete_items cp ys t)" by (rule Cons.IH)
    with True show ?thesis
      by (simp only: fst_delete_items_Cons delete_items_absorb)
  next
    case False
    with Cons.prems have "set xs = set (removeAll x ys)" by auto
    then have "fst (delete_items cp xs (fst (delete_path (joinpath cp x) t))) =
        fst (delete_items cp (removeAll x ys) (fst (delete_path (joinpath cp x) t)))"
      by (rule Cons.IH)
    with delete_items_removeAll [OF x, of cp t] show ?thesis
      by (simp only: fst_delete_items_Cons)
  qed
qed

subsection \<open>Idempotence and monotonicity\<close>

text \<open>
  Claim C3. Running the evaluator a second time, on the file system the first run
  left, with the same rule tree, base path and relative path, changes nothing: the
  state after two runs is the state after one.
\<close>

theorem process_rule_idempotent:
  "fst (process_rule base_path relative_path rule (fst (process_rule base_path relative_path rule t)))
     = fst (process_rule base_path relative_path rule t)"
proof -
  let ?once = "fst (process_rule base_path relative_path rule t)"
  have "fs_le ?once ?once"
    by (rule fs_le_refl)
  then show "fst (process_rule base_path relative_path rule ?once) = ?once"
    by (rule process_rule_stable)
qed

theorem process_rule_idempotent_witness:
  "fst (process_rule [''assets''] ''minecraft'' example_rule example_tree)
      = Dir [(''assets'', Dir [(''minecraft'', Dir [(''c'', Dir [])])])]
   \<and> fst (process_rule [''assets''] ''minecraft'' example_rule
        (fst (process_rule [''assets''] ''minecraft'' example_rule example_tree)))
      = Dir [(''assets'', Dir [(''minecraft'', Dir [(''c'', Dir [])])])]"
proof -
  have 1: "fst (process_rule [''assets''] ''minecraft'' example_rule example_tree)
      = Dir [(''assets'', Dir [(''minecraft'', Dir [(''c'', Dir [])])])]"
    by code_simp
  show ?thesis
    using process_rule_idempotent [of "[''assets'']" "''minecraft''" example_rule example_tree]
    by (simp only: 1 simp_thms)
qed

lemma kind_of_File: "kind_of n = KFile c \<longleftrightarrow> n = File c"
  by (cases n) (auto simp: kind_of_def)

text \<open>
  Claim C10. The evaluator only removes entries: a path present after evaluation was
  present before, a directory was a directory, and a file was a file with the same
  content.
\<close>

theorem process_rule_only_removes:
  assumes "path_exists (fst (process_rule base_path relative_path rule t)) p"
  shows "path_exists t p
    \<and> is_dir t p = is_dir (fst (process_rule base_path relative_path rule t)) p
    \<and> is_file t p = is_file (fst (process_rule base_path relative_path rule t)) p
    \<and> (\<forall>c. lookup (fst (process_rule base_path relative_path rule t)) p = Some (File c)
          \<longrightarrow> lookup t p = Some (File c))"
proof -
  let ?t' = "fst (process_rule base_path relative_path rule t)"
  from assms obtain k where k: "kind_at ?t' p = Some k"
    by (auto simp: path_exists_kind)
  with process_rule_le [of base_path relative_path rule t] have k': "kind_at t p = Some k"
    by (simp add: fs_le_def)
  have "lookup t p = Some (File c)" if "lookup ?t' p = Some (File c)" for c
  proof -
    from that k have "k = KFile c" by (simp add: kind_at_def kind_of_def)
    with k' show ?thesis by (auto simp: kind_at_def kind_of_File)
  qed
  with k k' show ?thesis
    by (simp add: path_exists_kind is_dir_kind is_file_kind)
qed

theorem process_rule_only_removes_witness:
  "path_exists (fst (process_rule [''assets''] ''minecraft'' (JArr [JStr ''delete'', JObj [(''a'', JStr ''delete'')]]) example_tree)) [''assets'', ''minecraft'', ''b'']
   \<and> path_exists example_tree [''assets'', ''minecraft'', ''b'']
   \<and> lookup example_tree [''assets'', ''minecraft'', ''b''] = Some (File ''y'')
   \<and> lookup (fst (process_rule [''assets''] ''minecraft'' (JArr [JStr ''delete'', JObj [(''a'', JStr ''delete'')]]) example_tree)) [''assets'', ''minecraft'', ''b''] = Some (File ''y'')"
proof -
  have h: "path_exists (fst (process_rule [''assets''] ''minecraft'' (JArr [JStr ''delete'', JObj [(''a'', JStr ''delete'')]]) example_tree)) [''assets'', ''minecraft'', ''b'']"
    by code_simp
  have l: "lookup (fst (process_rule [''assets''] ''minecraft'' (JArr [JStr ''delete'', JObj [(''a'', JStr ''delete'')]]) example_tree)) [''assets'', ''minecraft'', ''b''] = Some (File ''y'')"
    by code_simp
  from process_rule_only_removes [OF h] h l show ?thesis by simp
qed

subsection \<open>A directory of three entries\<close>

lemma lookup_child:
  "lookup t cp = Some (Dir es) \<Longrightarrow> lookup t (cp @ [n]) = map_of es n"
  by (simp add: lookup_append split: option.splits)

lemma lookup_child_exists:
  "lookup t cp = Some (Dir es) \<Longrightarrow> path_exists t (cp @ [n]) \<longleftrightarrow> n \<in> fst ` set es"
  by (simp add: lookup_child path_exists_def map_of_eq_None_iff)

lemma lookup_is_dir: "lookup t cp = Some (Dir es) \<Longrightarrow> is_dir t cp"
  by (simp add: is_dir_def)

lemma iterdir_names_set:
  "lookup t cp = Some (Dir es) \<Longrightarrow> set (iterdir_names t cp) = fst ` set es"
  by (simp add: iterdir_names_def)

text \<open>
  Claim C1. In a directory whose entries are exactly \<open>a\<close>, \<open>b\<close> and \<open>c\<close>, reached by a
  path without a \<^verbatim>\<open>..\<close> component, the rule \<^verbatim>\<open>["preserve", {"a": "preserve"}]\<close> removes
  \<open>b\<close> and \<open>c\<close> and keeps \<open>a\<close>, with everything below it, as it was; afterwards the
  directory lists \<open>a\<close> only.
\<close>

theorem whitelist_keeps_declared_entry:
  assumes dir: "lookup t (joinpath base_path relative_path) = Some (Dir es)"
    and entries: "fst ` set es = {a, b, c}"
    and distinct: "a \<noteq> b" "a \<noteq> c"
    and names: "valid_name b" "valid_name c"
    and no_parent: "dotdot_free_path (joinpath base_path relative_path)"
  shows "let current_path = joinpath base_path relative_path;
             t' = fst (process_rule base_path relative_path
                        (JArr [JStr ''preserve'', JObj [(a, JStr ''preserve'')]]) t)
         in \<not> path_exists t' (current_path @ [b])
          \<and> \<not> path_exists t' (current_path @ [c])
          \<and> path_exists t' (current_path @ [a])
          \<and> lookup t' (current_path @ [a]) = lookup t (current_path @ [a])
          \<and> set (iterdir_names t' current_path) = {a}"
proof -
  define cp where "cp = joinpath base_path relative_path"
  define items where
    "items = filter (\<lambda>n. n \<notin> set (map fst [(a, JStr ''preserve'')])) (iterdir_names t cp)"
  define t1 where "t1 = fst (delete_items cp items t)"
  have dir': "lookup t cp = Some (Dir es)"
    using dir by (simp add: cp_def)
  have items: "set items = {b, c}"
    unfolding items_def using iterdir_names_set [OF dir'] entries distinct by auto
  have join: "joinpath cp n = cp @ [n]" if "n \<in> {b, c}" for n
    using that names by (auto simp: joinpath_item)
  have result: "fst (process_rule base_path relative_path
      (JArr [JStr ''preserve'', JObj [(a, JStr ''preserve'')]]) t) = t1"
    unfolding t1_def items_def cp_def
    by (simp only: fst_process_rule_preserve [OF lookup_is_dir [OF dir]])
      (simp add: case_prod_beta)
  have kind: "kind_at t1 (cp @ [n]) = (if n \<in> {b, c} then None else kind_at t (cp @ [n]))" for n
  proof -
    have "(\<exists>m \<in> {b, c}. prefix (joinpath cp m) (cp @ [n])) \<longleftrightarrow> n \<in> {b, c}"
      using join [of b] join [of c] by auto
    then show ?thesis
      unfolding t1_def by (simp only: kind_at_delete_items items) simp
  qed
  have exists_t: "kind_at t (cp @ [n]) \<noteq> None \<longleftrightarrow> n \<in> {a, b, c}" for n
    using lookup_child_exists [OF dir', of n] entries by (simp add: path_exists_kind)
  have b: "\<not> path_exists t1 (cp @ [b])" and c: "\<not> path_exists t1 (cp @ [c])"
    by (simp_all add: path_exists_kind kind)
  have a: "path_exists t1 (cp @ [a])"
    using exists_t [of a] distinct by (simp add: path_exists_kind kind)
  have same: "lookup t1 (cp @ [a]) = lookup t (cp @ [a])"
    unfolding t1_def
  proof (rule lookup_delete_items_other)
    fix n assume "n \<in> set items"
    then have n: "n \<in> {b, c}" by (simp only: items)
    with distinct have "n \<noteq> a" by auto
    with join [OF n] show "\<not> prefix (joinpath cp n) (cp @ [a]) \<and> \<not> prefix (cp @ [a]) (joinpath cp n)"
      by simp
  qed
  have "\<not> (\<exists>m \<in> {b, c}. prefix (joinpath cp m) cp)"
    using join [of b] join [of c] by simp
  then have "kind_at t1 cp = kind_at t cp"
    unfolding t1_def by (simp only: kind_at_delete_items items) simp
  then have is_dir: "is_dir t1 cp"
    using lookup_is_dir [OF dir'] by (simp add: is_dir_kind)
  have "n \<in> set (iterdir_names t1 cp) \<longleftrightarrow> n = a" for n
    using exists_t [of n] distinct by (auto simp: iterdir_names_iff is_dir kind)
  then have listing: "set (iterdir_names t1 cp) = {a}"
    by (simp add: set_eq_iff)
  from a b c same listing show ?thesis
    unfolding cp_def [symmetric] by (simp only: Let_def result simp_thms)
qed

theorem whitelist_keeps_declared_entry_witness:
  "lookup example_tree (joinpath [''assets''] ''minecraft'') =
      Some (Dir [(''a'', File ''x''), (''b'', File ''y''), (''c'', Dir [(''d'', File ''z'')])])
   \<and> dotdot_free_path (joinpath [''assets''] ''minecraft'')
   \<and> \<not> path_exists (fst (process_rule [''assets''] ''minecraft''
          (JArr [JStr ''preserve'', JObj [(''a'', JStr ''preserve'')]]) example_tree))
        [''assets'', ''minecraft'', ''c'']
   \<and> lookup (fst (process_rule [''assets''] ''minecraft''
          (JArr [JStr ''preserve'', JObj [(''a'', JStr ''preserve'')]]) example_tree))
        [''assets'', ''minecraft'', ''a''] = Some (File ''x'')"
proof -
  have cp: "joinpath [''assets''] ''minecraft'' = [''assets'', ''minecraft'']"
    by code_simp
  have dir: "lookup example_tree (joinpath [''assets''] ''minecraft'') =
      Some (Dir [(''a'', File ''x''), (''b'', File ''y''), (''c'', Dir [(''d'', File ''z'')])])"
    by code_simp
  have entries: "fst ` set [(''a'', File ''x''), (''b'', File ''y''), (''c'', Dir [(''d'', File ''z'')])]
      = {''a'', ''b'', ''c''}"
    by simp
  have names: "valid_name ''b''" "valid_name ''c''"
    by (simp_all add: valid_name_def)
  have old: "lookup example_tree [''assets'', ''minecraft'', ''a''] = Some (File ''x'')"
    by code_simp
  have no_parent: "dotdot_free_path (joinpath [''assets''] ''minecraft'')"
    by code_simp
  have "''a'' \<noteq> ''b''" and "''a'' \<noteq> ''c''"
    by simp_all
  from whitelist_keeps_declared_entry [OF dir entries this names no_parent] dir old no_parent
  show ?thesis
    by (simp add: Let_def cp)
qed

text \<open>
  Claim C2. In a directory whose entries are exactly \<open>a\<close>, \<open>b\<close> and \<open>c\<close>, the rule
  \<^verbatim>\<open>["delete", {"a": "delete"}]\<close> removes the entry \<open>a\<close> and nothing else: \<open>b\<close> and \<open>c\<close>
  keep everything below them, and every path that is not at or below \<open>a\<close> holds
  what it held.
\<close>

theorem blacklist_removes_declared_entry:
  assumes dir: "lookup t (joinpath base_path relative_path) = Some (Dir es)"
    and entries: "fst ` set es = {a, b, c}"
    and distinct: "a \<noteq> b" "a \<noteq> c"
    and name: "valid_name a"
  shows "let current_path = joinpath base_path relative_path;
             t' = fst (process_rule base_path relative_path
                        (JArr [JStr ''delete'', JObj [(a, JStr ''delete'')]]) t)
         in t' = remove_entry (current_path @ [a]) t
          \<and> \<not> path_exists t' (current_path @ [a])
          \<and> lookup t' (current_path @ [b]) = lookup t (current_path @ [b])
          \<and> lookup t' (current_path @ [c]) = lookup t (current_path @ [c])
          \<and> path_exists t' (current_path @ [b])
          \<and> path_exists t' (current_path @ [c])
          \<and> (\<forall>q. \<not> prefix (current_path @ [a]) q \<longrightarrow> kind_at t' q = kind_at t q)"
proof -
  define cp where "cp = joinpath base_path relative_path"
  define t1 where "t1 = remove_entry (cp @ [a]) t"
  have dir': "lookup t cp = Some (Dir es)"
    using dir by (simp add: cp_def)
  have target: "joinpath base_path (sub_relative_path relative_path a) = cp @ [a]"
    unfolding cp_def using name by (rule joinpath_sub_relative_path)
  have "path_exists t (cp @ [a])"
    using lookup_child_exists [OF dir', of a] entries by simp
  then have result: "fst (process_rule base_path relative_path
      (JArr [JStr ''delete'', JObj [(a, JStr ''delete'')]]) t) = t1"
    unfolding t1_def
    by (simp only: process_rule_delete_mode [OF lookup_is_dir [OF dir]])
      (simp add: case_prod_beta target fst_delete_path)
  have a: "\<not> path_exists t1 (cp @ [a])"
    by (simp add: t1_def path_exists_kind kind_at_remove_entry)
  have other: "lookup t1 (cp @ [n]) = lookup t (cp @ [n])" if "n \<noteq> a" for n
    unfolding t1_def using that by (intro lookup_remove_entry_other) simp_all
  have present: "path_exists t1 (cp @ [n])" if "n \<noteq> a" "n \<in> {b, c}" for n
    using lookup_child_exists [OF dir', of n] entries that
    by (auto simp: path_exists_def other)
  have frame: "kind_at t1 q = kind_at t q" if "\<not> prefix (cp @ [a]) q" for q
    using that by (simp add: t1_def kind_at_remove_entry)
  from distinct have "b \<noteq> a" "c \<noteq> a" by auto
  with a other present frame show ?thesis
    unfolding cp_def [symmetric] Let_def result
    by (simp add: t1_def [symmetric])
qed

theorem blacklist_removes_declared_entry_witness:
  "lookup example_tree (joinpath [''assets''] ''minecraft'') =
      Some (Dir [(''a'', File ''x''), (''b'', File ''y''), (''c'', Dir [(''d'', File ''z'')])])
   \<and> fst (process_rule [''assets''] ''minecraft''
          (JArr [JStr ''delete'', JObj [(''a'', JStr ''delete'')]]) example_tree)
       = Dir [(''assets'', Dir [(''minecraft'',
           Dir [(''b'', File ''y''), (''c'', Dir [(''d'', File ''z'')])])])]"
proof -
  have cp: "joinpath [''assets''] ''minecraft'' = [''assets'', ''minecraft'']"
    by code_simp
  have dir: "lookup example_tree (joinpath [''assets''] ''minecraft'') =
      Some (Dir [(''a'', File ''x''), (''b'', File ''y''), (''c'', Dir [(''d'', File ''z'')])])"
    by code_simp
  have entries: "fst ` set [(''a'', File ''x''), (''b'', File ''y''), (''c'', Dir [(''d'', File ''z'')])]
      = {''a'', ''b'', ''c''}"
    by simp
  have name: "valid_name ''a''"
    by (simp add: valid_name_def)
  have removed: "remove_entry [''assets'', ''minecraft'', ''a''] example_tree
      = Dir [(''assets'', Dir [(''minecraft'',
           Dir [(''b'', File ''y''), (''c'', Dir [(''d'', File ''z'')])])])]"
    by code_simp
  from blacklist_removes_declared_entry [OF dir entries _ _ name] dir removed show ?thesis
    by (simp add: Let_def cp)
qed

subsection \<open>Rejected array rules\<close>

lemma is_object_iff: "is_object d \<longleftrightarrow> (\<exists>decls. d = JObj decls)"
  by (cases d) (simp_all add: is_object_def)

lemma rejected_process_rule:
  assumes "rejected b r rule t"
  shows "\<exists>d \<in> {IncorrectArrayRuleFormat r, UnknownMode (rule ! 0) r, DeclarationListNotObject r,
            DirectoryDoesNotExist r, PathIsNotDirectory r}.
          process_rule b r (JArr rule) t = (t, [d])"
proof (cases "length rule = 2")
  case False
  then show ?thesis by (simp add: process_rule_bad_length)
next
  case True
  then obtain mode d where rule: "rule = [mode, d]" using two_list by blast
  show ?thesis
  proof (cases "valid_mode mode")
    case False
    then show ?thesis by (simp add: rule process_rule_bad_mode)
  next
    case mode: True
    show ?thesis
    proof (cases "is_object d")
      case False
      with mode show ?thesis
        by (simp add: rule process_rule_bad_declarations is_object_iff)
    next
      case True
      then obtain decls where d: "d = JObj decls" by (auto simp: is_object_iff)
      show ?thesis
      proof (cases "path_exists t (joinpath b r)")
        case False
        with mode show ?thesis by (simp add: rule d process_rule_missing)
      next
        case ex: True
        with assms mode have "\<not> is_dir t (joinpath b r)"
          by (simp add: rejected_def rule d is_object_def)
        with mode ex show ?thesis by (simp add: rule d process_rule_not_dir)
      qed
    qed
  qed
qed

text \<open>
  Claim C5. An array rule that is rejected (wrong length, invalid mode, declarations
  that are not a mapping, a target that is missing or is not a directory) returns the
  file system unchanged with exactly one diagnostic, and the rules listed after it in
  the same mapping are then processed from that unchanged file system.
\<close>

theorem rejected_array_rule_is_skipped:
  assumes "rejected base_path relative_path rule t"
  shows "\<exists>d. d \<in> set [IncorrectArrayRuleFormat relative_path, UnknownMode (rule ! 0) relative_path,
              DeclarationListNotObject relative_path, DirectoryDoesNotExist relative_path,
              PathIsNotDirectory relative_path]
          \<and> process_rule base_path relative_path (JArr rule) t = (t, [d])
          \<and> (\<forall>parent name before after t0.
                relative_path = sub_relative_path parent name
                \<and> t = fst (process_items base_path parent before t0) \<longrightarrow>
                process_items base_path parent (before @ (name, JArr rule) # after) t0 =
                  (fst (process_items base_path parent after t),
                   snd (process_items base_path parent before t0) @ d
                     # snd (process_items base_path parent after t)))"
proof -
  from rejected_process_rule [OF assms] obtain d
    where d: "d \<in> {IncorrectArrayRuleFormat relative_path, UnknownMode (rule ! 0) relative_path,
        DeclarationListNotObject relative_path, DirectoryDoesNotExist relative_path,
        PathIsNotDirectory relative_path}"
      and run: "process_rule base_path relative_path (JArr rule) t = (t, [d])"
    by blast
  have "process_items base_path parent (before @ (name, JArr rule) # after) t0 =
      (fst (process_items base_path parent after t),
       snd (process_items base_path parent before t0) @ d
         # snd (process_items base_path parent after t))"
    if "relative_path = sub_relative_path parent name"
      and "t = fst (process_items base_path parent before t0)"
    for parent name before after t0
    using that run by (simp add: process_items_append case_prod_beta)
  with d run show ?thesis by (intro exI [of _ d]) simp
qed

theorem rejected_array_rule_is_skipped_witness:
  "rejected [''assets''] (sub_relative_path ''minecraft'' ''x'') [JStr ''preserve'', JObj []] example_tree
   \<and> process_items [''assets''] ''minecraft''
        [(''x'', JArr [JStr ''preserve'', JObj []]), (''a'', JStr ''delete'')] example_tree
      = (Dir [(''assets'', Dir [(''minecraft'',
           Dir [(''b'', File ''y''), (''c'', Dir [(''d'', File ''z'')])])])],
         [DirectoryDoesNotExist ''minecraft/x''])"
proof -
  have h: "rejected [''assets''] (sub_relative_path ''minecraft'' ''x'')
      [JStr ''preserve'', JObj []] example_tree"
    by code_simp
  have run: "process_rule [''assets''] (sub_relative_path ''minecraft'' ''x'')
      (JArr [JStr ''preserve'', JObj []]) example_tree
      = (example_tree, [DirectoryDoesNotExist ''minecraft/x''])"
    by code_simp
  have rest: "process_items [''assets''] ''minecraft'' [(''a'', JStr ''delete'')] example_tree
      = (Dir [(''assets'', Dir [(''minecraft'',
           Dir [(''b'', File ''y''), (''c'', Dir [(''d'', File ''z'')])])])], [])"
    by code_simp
  from rejected_array_rule_is_skipped [OF h] obtain d
    where d: "process_rule [''assets''] (sub_relative_path ''minecraft'' ''x'')
        (JArr [JStr ''preserve'', JObj []]) example_tree = (example_tree, [d])"
      and siblings: "\<And>parent name before after t0.
        sub_relative_path ''minecraft'' ''x'' = sub_relative_path parent name
          \<and> example_tree = fst (process_items [''assets''] parent before t0) \<Longrightarrow>
        process_items [''assets''] parent
            (before @ (name, JArr [JStr ''preserve'', JObj []]) # after) t0 =
          (fst (process_items [''assets''] parent after example_tree),
           snd (process_items [''assets''] parent before t0) @ d
             # snd (process_items [''assets''] parent after example_tree))"
    by blast
  from d run have d': "d = DirectoryDoesNotExist ''minecraft/x''" by simp
  have "process_items [''assets''] ''minecraft''
      ([] @ (''x'', JArr [JStr ''preserve'', JObj []]) # [(''a'', JStr ''delete'')]) example_tree =
      (fst (process_items [''assets''] ''minecraft'' [(''a'', JStr ''delete'')] example_tree),
       snd (process_items [''assets''] ''minecraft'' [] example_tree) @ d
         # snd (process_items [''assets''] ''minecraft'' [(''a'', JStr ''delete'')] example_tree))"
    by (rule siblings) simp
  with h d' show ?thesis by (simp only: rest append_Nil fst_conv snd_conv process_items.simps(1) simp_thms)
qed

section \<open>The metadata patchers: proofs\<close>

subsection \<open>Splitting and joining lines\<close>

lemma split_on_elems_no_sep: "w \<in> set (split_on sep s) \<Longrightarrow> sep \<notin> set w"
proof (induction s arbitrary: w)
  case Nil
  then show ?case by simp
next
  case (Cons c s)
  obtain v vs where v: "split_on sep s = v # vs"
    by (cases "split_on sep s") auto
  with Cons show ?case by (auto split: if_splits)
qed

lemma split_on_str_join:
  "xs \<noteq> [] \<Longrightarrow> (\<And>w. w \<in> set xs \<Longrightarrow> sep \<notin> set w) \<Longrightarrow>
     split_on sep (str_join [sep] xs) = xs"
proof (induction xs)
  case Nil
  then show ?case by simp
next
  case (Cons x xs)
  have x: "split_on sep x = [x]"
    by (rule split_on_no_sep) (simp add: Cons.prems)
  show ?case
  proof (cases xs)
    case Nil
    with x show ?thesis by simp
  next
    case (Cons y ys)
    then have "split_on sep (str_join [sep] xs) = xs"
      by (intro Cons.IH) (simp_all add: Cons.prems)
    with Cons x show ?thesis by (simp add: split_on_append_sep)
  qed
qed

lemma patch_description_lines: "patch_description d = str_join [newline] (patched_lines d)"
  by (simp add: patch_description_def patched_lines_def Let_def)

lemma newline_notin_tokens:
  "newline \<notin> set description_prefix" "newline \<notin> set second_line"
  by (simp_all add: newline_def description_prefix_def second_line_def)

lemma hd_split_on_no_sep: "sep \<notin> set (hd (split_on sep s))"
  by (rule split_on_elems_no_sep [of _ sep s]) simp

lemma tl_split_on_no_sep: "w \<in> set (tl (split_on sep s)) \<Longrightarrow> sep \<notin> set w"
  by (rule split_on_elems_no_sep [of _ sep s]) (rule list.set_sel(2), simp_all)

lemma patched_lines_no_newline: "w \<in> set (patched_lines d) \<Longrightarrow> newline \<notin> set w"
proof -
  assume w: "w \<in> set (patched_lines d)"
  define lines1 where "lines1 = (if \<not> prefix description_prefix (hd (split_on newline d))
      then (description_prefix @ hd (split_on newline d)) # tl (split_on newline d)
      else split_on newline d)"
  have l1: "newline \<notin> set v" if "v \<in> set lines1" for v
    using that newline_notin_tokens hd_split_on_no_sep [of newline d]
      tl_split_on_no_sep [of v newline d] split_on_elems_no_sep [of v newline d]
    by (auto simp: lines1_def split: if_splits)
  have "w \<in> set lines1 \<or> w = second_line"
    using w set_update_subset_insert [of lines1 1 second_line]
    by (auto simp: patched_lines_def Let_def lines1_def [symmetric] split: if_splits)
  with l1 newline_notin_tokens show ?thesis by auto
qed

lemma patched_lines_length: "length (patched_lines d) \<ge> 2"
proof -
  have "length (split_on newline d) \<ge> 1"
    by (cases "split_on newline d") simp_all
  then show ?thesis
    by (cases "split_on newline d") (auto simp: patched_lines_def Let_def)
qed

lemma patched_lines_second: "patched_lines d ! 1 = second_line"
proof (cases "split_on newline d")
  case Nil
  then show ?thesis by simp
next
  case (Cons l ls)
  then show ?thesis
    by (cases ls) (auto simp: patched_lines_def Let_def)
qed

lemma patched_lines_first: "prefix description_prefix (hd (patched_lines d))"
proof (cases "split_on newline d")
  case Nil
  then show ?thesis by simp
next
  case (Cons l ls)
  then show ?thesis
    by (cases ls) (auto simp: patched_lines_def Let_def)
qed

lemma split_patch_description: "split_on newline (patch_description d) = patched_lines d"
proof -
  have "patched_lines d \<noteq> []"
    using patched_lines_length [of d] by auto
  then show ?thesis
    unfolding patch_description_lines
    by (rule split_on_str_join) (rule patched_lines_no_newline)
qed

lemma patched_lines_idem: "patched_lines (patch_description d) = patched_lines d"
proof -
  let ?ls = "patched_lines d"
  have "?ls[1 := second_line] = ?ls"
    using patched_lines_second [of d] by (metis list_update_id)
  then show ?thesis
    using patched_lines_first [of d] patched_lines_length [of d]
    by (simp add: patched_lines_def [of "patch_description d"] split_patch_description Let_def)
qed

lemma patch_description_idem: "patch_description (patch_description d) = patch_description d"
  by (simp add: patch_description_lines [of "patch_description d"] patched_lines_idem
      patch_description_lines [symmetric])

subsection \<open>The description patcher\<close>

lemma map_of_dict_set:
  "map_of (dict_set k v kvs) k' = (if k' = k then map_option (\<lambda>_. v) (map_of kvs k) else map_of kvs k')"
  by (induction kvs) (auto simp: dict_set_def)

lemma keys_dict_set: "fst ` set (dict_set k v kvs) = fst ` set kvs"
  by (induction kvs) (auto simp: dict_set_def)

lemma map_of_key: "map_of kvs k = Some v \<Longrightarrow> k \<in> fst ` set kvs"
  by (metis map_of_eq_None_iff option.distinct(1))

lemma modify_pack_mcmeta_string:
  assumes "map_of outer ''pack'' = Some (JObj inner)"
    and "map_of inner ''description'' = Some (JStr d)"
  shows "modify_pack_mcmeta (Document (JObj outer)) =
     (if patch_description d \<noteq> d
      then Some (JObj (dict_set ''pack''
             (JObj (dict_set ''description'' (JStr (patch_description d)) inner)) outer))
      else None, [])"
  using assms map_of_key [OF assms(1)] map_of_key [OF assms(2)]
  by (simp add: modify_pack_mcmeta_def py_contains_def py_getitem_def Let_def)

lemma patched_lines_rest: "drop 2 (patched_lines d) = drop 2 (split_on newline d)"
proof (cases "split_on newline d")
  case Nil
  then show ?thesis by simp
next
  case (Cons l ls)
  then show ?thesis
    by (cases ls) (auto simp: patched_lines_def Let_def)
qed

lemma patched_lines_count: "length (patched_lines d) = max 2 (length (split_on newline d))"
proof (cases "split_on newline d")
  case Nil
  then show ?thesis by simp
next
  case (Cons l ls)
  then show ?thesis
    by (cases ls) (auto simp: patched_lines_def Let_def)
qed

text \<open>
  Claim C7. For a document whose \<^verbatim>\<open>pack.description\<close> is a string: the first line of the
  patched description starts with the prefix token, its second line is the
  attribution token (appended when the description had one line only, the later
  lines kept), the file is written exactly when the patched description differs from
  the original, and patching the written document again writes nothing.
\<close>

theorem description_patch:
  assumes "map_of outer ''pack'' = Some (JObj inner)"
    and "map_of inner ''description'' = Some (JStr d)"
  shows "let d' = patch_description d;
             doc' = JObj (dict_set ''pack'' (JObj (dict_set ''description'' (JStr d') inner)) outer)
         in prefix description_prefix (hd (split_on newline d'))
          \<and> split_on newline d' ! 1 = second_line
          \<and> length (split_on newline d') = max 2 (length (split_on newline d))
          \<and> drop 2 (split_on newline d') = drop 2 (split_on newline d)
          \<and> patch_description d' = d'
          \<and> modify_pack_mcmeta (Document (JObj outer)) = (if d' \<noteq> d then Some doc' else None, [])
          \<and> modify_pack_mcmeta (Document doc') = (None, [])"
proof -
  define d' where "d' = patch_description d"
  define inner' where "inner' = dict_set ''description'' (JStr d') inner"
  define outer' where "outer' = dict_set ''pack'' (JObj inner') outer"
  have lines: "split_on newline d' = patched_lines d"
    by (simp add: d'_def split_patch_description)
  have idem: "patch_description d' = d'"
    by (simp add: d'_def patch_description_idem)
  have first: "modify_pack_mcmeta (Document (JObj outer)) =
      (if d' \<noteq> d then Some (JObj outer') else None, [])"
    unfolding d'_def outer'_def inner'_def
    by (rule modify_pack_mcmeta_string [OF assms])
  have "map_of outer' ''pack'' = Some (JObj inner')"
    by (simp add: outer'_def map_of_dict_set assms(1))
  moreover have "map_of inner' ''description'' = Some (JStr d')"
    by (simp add: inner'_def map_of_dict_set assms(2))
  ultimately have second: "modify_pack_mcmeta (Document (JObj outer')) = (None, [])"
    by (simp add: modify_pack_mcmeta_string idem)
  show ?thesis
    unfolding Let_def d'_def [symmetric] inner'_def [symmetric] outer'_def [symmetric]
    using first second idem patched_lines_second [of d]
    by (simp add: lines patched_lines_first patched_lines_count patched_lines_rest)
qed

theorem description_patch_witness:
  "modify_pack_mcmeta (Document example_mcmeta) =
     (Some (JObj [(''pack'', JObj [(''pack_format'', JNum 1),
        (''description'', JStr (description_prefix @ ''Foo'' @ [newline] @ second_line))])]), [])
   \<and> modify_pack_mcmeta (Document
        (JObj [(''pack'', JObj [(''pack_format'', JNum 1),
          (''description'', JStr (description_prefix @ ''Foo'' @ [newline] @ second_line))])]))
      = (None, [])"
proof -
  have 1: "map_of [(''pack'', JObj [(''pack_format'', JNum 1), (''description'', JStr ''Foo'')])] ''pack''
      = Some (JObj [(''pack_format'', JNum 1), (''description'', JStr ''Foo'')])"
    by simp
  have 2: "map_of [(''pack_format'', JNum 1), (''description'', JStr ''Foo'')] ''description''
      = Some (JStr ''Foo'')"
    by simp
  have p: "patch_description ''Foo'' = description_prefix @ ''Foo'' @ [newline] @ second_line"
    by code_simp
  have ne: "description_prefix @ ''Foo'' @ [newline] @ second_line \<noteq> ''Foo''"
    by code_simp
  from description_patch [OF 1 2] ne show ?thesis
    by (simp add: Let_def p example_mcmeta_def dict_set_def)
qed

subsection \<open>The credits patcher\<close>

lemma py_rstrip_Nil [simp]: "py_rstrip [] = []"
  by (simp add: py_rstrip_def)

lemma modify_credits_created:
  "fst (modify_credits (Some text) None) = Some (py_strip text @ [newline])"
  by (simp add: modify_credits_def Let_def)

lemma modify_credits_appended:
  "\<not> sublist (py_strip text) content \<Longrightarrow>
     fst (modify_credits (Some text) (Some content)) =
       Some (py_rstrip content @ [newline, newline] @ py_strip text @ [newline])"
  by (simp add: modify_credits_def Let_def)

lemma modify_credits_present:
  "sublist (py_strip text) content \<Longrightarrow>
     fst (modify_credits (Some text) (Some content)) = Some content"
  by (simp add: modify_credits_def Let_def)

lemma modify_credits_twice:
  "fst (modify_credits (Some text) (fst (modify_credits (Some text) credits))) =
     fst (modify_credits (Some text) credits)"
proof (cases credits)
  case None
  have "sublist (py_strip text) (py_strip text @ [newline])" by simp
  then show ?thesis
    by (simp add: None modify_credits_created modify_credits_present)
next
  case (Some content)
  show ?thesis
  proof (cases "sublist (py_strip text) content")
    case True
    then show ?thesis by (simp add: Some modify_credits_present)
  next
    case False
    have "sublist (py_strip text) ((py_rstrip content @ [newline, newline]) @ py_strip text @ [newline])"
      by (rule sublist_appendI)
    with False show ?thesis
      by (simp add: Some modify_credits_appended modify_credits_present)
  qed
qed

text \<open>
  Claim C6, as stated, fails for a credits file that exists and is empty: with the
  template \<^verbatim>\<open>Mini\<close> the file does not become the signature and a newline.
\<close>

theorem credits_empty_file_counterexample:
  "fst (modify_credits (Some ''Mini'') (Some [])) \<noteq> Some (py_strip ''Mini'' @ [newline])"
  by code_simp

text \<open>
  Claim C6, amended. A missing credits file is created with the stripped template
  and a newline. A file that exists and does not contain the signature, the empty
  file included when the signature is not empty, becomes its old text stripped on the
  right, a blank line, the signature and a newline. In every case a second run
  leaves the file as the first run left it.
\<close>

theorem credits_patch:
  "fst (modify_credits (Some text) None) = Some (py_strip text @ [newline])
   \<and> (\<not> sublist (py_strip text) content \<longrightarrow>
        fst (modify_credits (Some text) (Some content)) =
          Some (py_rstrip content @ [newline, newline] @ py_strip text @ [newline]))
   \<and> (py_strip text \<noteq> [] \<longrightarrow>
        fst (modify_credits (Some text) (Some [])) =
          Some ([newline, newline] @ py_strip text @ [newline]))
   \<and> fst (modify_credits (Some text) (fst (modify_credits (Some text) credits))) =
        fst (modify_credits (Some text) credits)"
proof -
  have "fst (modify_credits (Some text) (Some [])) =
      Some ([newline, newline] @ py_strip text @ [newline])" if "py_strip text \<noteq> []"
  proof -
    from that have "\<not> sublist (py_strip text) []" by simp
    then show ?thesis by (simp add: modify_credits_appended)
  qed
  then show ?thesis
    by (simp add: modify_credits_created modify_credits_appended modify_credits_twice)
qed

theorem credits_patch_witness:
  "py_strip '' Mini '' = ''Mini''
   \<and> fst (modify_credits (Some '' Mini '') None) = Some (''Mini'' @ [newline])
   \<and> fst (modify_credits (Some '' Mini '') (Some [])) = Some ([newline, newline] @ ''Mini'' @ [newline])
   \<and> fst (modify_credits (Some '' Mini '') (Some ([newline, newline] @ ''Mini'' @ [newline])))
        = Some ([newline, newline] @ ''Mini'' @ [newline])"
proof -
  have s: "py_strip '' Mini '' = ''Mini''"
    by code_simp
  have ne: "py_strip '' Mini '' \<noteq> []"
    by (simp add: s)
  note inst = credits_patch [of "'' Mini ''" "[]" "Some []"]
  from inst have created:
    "fst (modify_credits (Some '' Mini '') None) = Some (py_strip '' Mini '' @ [newline])"
    by (rule conjunct1)
  from inst ne have empty: "fst (modify_credits (Some '' Mini '') (Some [])) =
      Some ([newline, newline] @ py_strip '' Mini '' @ [newline])"
    by blast
  from inst have "fst (modify_credits (Some '' Mini '') (fst (modify_credits (Some '' Mini '') (Some [])))) =
      fst (modify_credits (Some '' Mini '') (Some []))"
    by blast
  then have again: "fst (modify_credits (Some '' Mini '')
      (Some ([newline, newline] @ py_strip '' Mini '' @ [newline]))) =
      Some ([newline, newline] @ py_strip '' Mini '' @ [newline])"
    by (simp only: empty)
  from created empty again show ?thesis
    by (simp only: s simp_thms)
qed

section \<open>The entry point: proofs\<close>

subsection \<open>Locating the pack root and the branches of main\<close>

lemma find_marker_None:
  "find_marker_dir d = None \<longleftrightarrow> \<not> has_marker d"
  "find_marker_entries es = None \<longleftrightarrow> \<not> (\<exists>e \<in> set es. has_marker (snd e))"
  by (induction d and es rule: find_marker_dir_find_marker_entries.induct)
    (auto split: option.splits)

lemma marker_entry_has_marker:
  assumes "lookup t p = Some d" and "path_exists t (p @ [marker])"
  shows "has_marker d"
proof (cases d)
  case (File c)
  with assms show ?thesis by (simp add: path_exists_def lookup_append)
next
  case (Dir es)
  with assms have "map_of es marker \<noteq> None"
    by (simp add: path_exists_def lookup_append split: option.splits)
  then have "marker \<in> fst ` set es" by (simp add: map_of_eq_None_iff)
  with Dir show ?thesis by simp
qed

lemma find_pack_mcmeta_None:
  "find_pack_mcmeta t pack_dir = None \<longleftrightarrow> target_missing pack_dir t \<or> no_marker pack_dir t"
proof (cases "lookup t pack_dir")
  case None
  then show ?thesis
    by (simp add: find_pack_mcmeta_def target_missing_def no_marker_def path_exists_def)
next
  case (Some d)
  show ?thesis
  proof (cases "path_exists t (pack_dir @ [marker])")
    case True
    with Some marker_entry_has_marker [OF Some True] show ?thesis
      by (simp add: find_pack_mcmeta_def target_missing_def no_marker_def path_exists_def)
  next
    case False
    with Some show ?thesis
      by (simp add: find_pack_mcmeta_def target_missing_def no_marker_def path_exists_def
          find_marker_None)
  qed
qed

lemma config_path_of_eq:
  "script_root @ [case type of Legacy \<Rightarrow> ''legacy'' | Modern \<Rightarrow> ''modern''] @ [''delete.json'']
     = config_path_of script_root type"
  by (simp add: config_path_of_def)

lemma main_config_missing:
  "config_missing script_root type t \<Longrightarrow>
     main json_load finishing_steps script_root type pack_dir t = (Returned 1, t)"
  by (simp add: main_def config_missing_def config_path_of_def Let_def)

lemma main_config_unreadable:
  "\<not> config_missing script_root type t \<Longrightarrow> parsed_config json_load script_root type t = None \<Longrightarrow>
     \<exists>e. fst (main json_load finishing_steps script_root type pack_dir t) = Raised e"
  by (auto simp: main_def config_missing_def parsed_config_def config_path_of_def Let_def
      split: option.splits)

lemma main_config_parsed:
  assumes "\<not> config_missing script_root type t"
    and "parsed_config json_load script_root type t = Some config"
  shows "main json_load finishing_steps script_root type pack_dir t =
     (case find_pack_mcmeta t pack_dir of
        None \<Rightarrow> (Returned 1, t)
      | Some pack_root \<Rightarrow>
          if \<not> path_exists t (pack_root @ [''assets'']) then (Returned 1, t)
          else case py_contains ''assets'' config of
            None \<Rightarrow> (Raised TypeError, t)
          | Some False \<Rightarrow> (Returned 1, t)
          | Some True \<Rightarrow>
              (case py_getitem config ''assets'' of
                 None \<Rightarrow> (Raised TypeError, t)
               | Some (JObj assets_rules) \<Rightarrow>
                   (case finishing_steps
                         (script_root @ [case type of Legacy \<Rightarrow> ''legacy'' | Modern \<Rightarrow> ''modern''])
                         script_root pack_root
                         (process_namespaces (pack_root @ [''assets'']) assets_rules t) of
                      (t2, Some e) \<Rightarrow> (Raised e, t2)
                    | (t2, None) \<Rightarrow> (Returned 0, t2))
               | Some _ \<Rightarrow> (Raised AttributeError, t)))"
  using assms
  by (auto simp: main_def config_missing_def parsed_config_def config_path_of_def Let_def
      split: option.splits bool.splits json.splits)

lemma main_returned_one:
  "fst (main json_load finishing_steps script_root type pack_dir t) = Returned 1 \<longleftrightarrow>
     config_missing script_root type t
     \<or> (\<exists>config. parsed_config json_load script_root type t = Some config
           \<and> (target_missing pack_dir t \<or> no_marker pack_dir t \<or> assets_absent pack_dir t
                \<or> py_contains ''assets'' config = Some False))"
proof (cases "config_missing script_root type t")
  case True
  then show ?thesis by (simp add: main_config_missing)
next
  case present: False
  show ?thesis
  proof (cases "parsed_config json_load script_root type t")
    case None
    with main_config_unreadable [OF present None, of finishing_steps pack_dir] present
    show ?thesis by auto
  next
    case (Some config)
    note parsed = Some
    note run = main_config_parsed [OF present parsed, of finishing_steps pack_dir]
    show ?thesis
    proof (cases "find_pack_mcmeta t pack_dir")
      case None
      then have "target_missing pack_dir t \<or> no_marker pack_dir t"
        by (simp add: find_pack_mcmeta_None)
      with run None present parsed show ?thesis by auto
    next
      case (Some pack_root)
      then have "find_pack_mcmeta t pack_dir \<noteq> None" by simp
      then have found: "\<not> target_missing pack_dir t" "\<not> no_marker pack_dir t"
        by (simp_all add: find_pack_mcmeta_None)
      have absent: "assets_absent pack_dir t \<longleftrightarrow> \<not> path_exists t (pack_root @ [''assets''])"
        by (simp add: assets_absent_def Some)
      show ?thesis
        using present parsed found
        unfolding run Some absent
        by (auto split: option.splits bool.splits json.splits prod.splits)
    qed
  qed
qed

lemma main_returned_zero:
  "fst (main json_load finishing_steps script_root type pack_dir t) = Returned 0 \<longleftrightarrow>
     (\<exists>config pack_root assets_rules.
        \<not> config_missing script_root type t
        \<and> parsed_config json_load script_root type t = Some config
        \<and> find_pack_mcmeta t pack_dir = Some pack_root
        \<and> path_exists t (pack_root @ [''assets''])
        \<and> py_contains ''assets'' config = Some True
        \<and> py_getitem config ''assets'' = Some (JObj assets_rules)
        \<and> snd (finishing_steps
                 (script_root @ [case type of Legacy \<Rightarrow> ''legacy'' | Modern \<Rightarrow> ''modern''])
                 script_root pack_root
                 (process_namespaces (pack_root @ [''assets'']) assets_rules t)) = None)"
proof (cases "config_missing script_root type t")
  case True
  then show ?thesis by (simp add: main_config_missing)
next
  case present: False
  show ?thesis
  proof (cases "parsed_config json_load script_root type t")
    case None
    with main_config_unreadable [OF present None, of finishing_steps pack_dir] present
    show ?thesis by auto
  next
    case (Some config)
    note run = main_config_parsed [OF present Some, of finishing_steps pack_dir]
    show ?thesis
      using present Some unfolding run
      by (auto split: option.splits bool.splits json.splits prod.splits)
  qed
qed

subsection \<open>Exit codes\<close>

lemma exit_status_zero: "exit_status out = 0 \<longleftrightarrow> out = Returned 0"
  by (cases out) (simp_all add: exit_status_def)

text \<open>
  Claim C8, as stated, fails. With the configuration \<^verbatim>\<open>{"assets": "delete"}\<close> none of
  the listed fatal conditions holds, yet \<^verbatim>\<open>assets_rules.items()\<close> raises
  \<^verbatim>\<open>AttributeError\<close>; with a configuration file that is not JSON none of them holds
  either, and \<^verbatim>\<open>json.load\<close> raises. Both times \<^verbatim>\<open>main\<close> returns nothing and the process
  ends with status 1.
\<close>

theorem main_exit_code_counterexample:
  "\<not> listed_fatal example_json_load [''tool''] Legacy [''pack''] (example_disk ''leaf'')
   \<and> fst (main example_json_load no_finishing_steps [''tool''] Legacy [''pack'']
          (example_disk ''leaf'')) = Raised AttributeError
   \<and> exit_status (fst (main example_json_load no_finishing_steps [''tool''] Legacy [''pack'']
          (example_disk ''leaf''))) = 1
   \<and> \<not> listed_fatal example_json_load [''tool''] Legacy [''pack''] (example_disk ''junk'')
   \<and> fst (main example_json_load no_finishing_steps [''tool''] Legacy [''pack'']
          (example_disk ''junk'')) = Raised JSONDecodeError
   \<and> exit_status (fst (main example_json_load no_finishing_steps [''tool''] Legacy [''pack'']
          (example_disk ''junk''))) = 1"
proof -
  have 1: "\<not> listed_fatal example_json_load [''tool''] Legacy [''pack''] (example_disk ''leaf'')"
    by code_simp
  have 2: "fst (main example_json_load no_finishing_steps [''tool''] Legacy [''pack'']
      (example_disk ''leaf'')) = Raised AttributeError"
    by code_simp
  have 3: "\<not> listed_fatal example_json_load [''tool''] Legacy [''pack''] (example_disk ''junk'')"
    by code_simp
  have 4: "fst (main example_json_load no_finishing_steps [''tool''] Legacy [''pack'']
      (example_disk ''junk'')) = Raised JSONDecodeError"
    by code_simp
  from 1 2 3 4 show ?thesis by (simp add: exit_status_def)
qed

text \<open>
  Claim C8, amended. \<^verbatim>\<open>main\<close> returns 1 exactly when the configuration file is
  missing, or the configuration parses and the target directory does not exist, or
  has no \<^verbatim>\<open>pack.mcmeta\<close> in its subtree, or \<^verbatim>\<open>assets\<close> is absent under the located pack
  root, or \<^verbatim>\<open>"assets" in config\<close> is false. It returns 0, the only way the process
  ends with status 0, exactly when the configuration parses, the pack root is
  located, \<^verbatim>\<open>assets\<close> exists there, the configuration maps \<^verbatim>\<open>"assets"\<close> to a mapping and
  the finishing steps raise nothing. Otherwise an exception escapes.
\<close>

theorem main_exit_code:
  "(fst (main json_load finishing_steps script_root type pack_dir t) = Returned 1 \<longleftrightarrow>
      config_missing script_root type t
      \<or> (\<exists>config. parsed_config json_load script_root type t = Some config
            \<and> (target_missing pack_dir t \<or> no_marker pack_dir t \<or> assets_absent pack_dir t
                 \<or> py_contains ''assets'' config = Some False)))
   \<and> (fst (main json_load finishing_steps script_root type pack_dir t) = Returned 0 \<longleftrightarrow>
      (\<exists>config pack_root assets_rules.
         \<not> config_missing script_root type t
         \<and> parsed_config json_load script_root type t = Some config
         \<and> find_pack_mcmeta t pack_dir = Some pack_root
         \<and> path_exists t (pack_root @ [''assets''])
         \<and> py_contains ''assets'' config = Some True
         \<and> py_getitem config ''assets'' = Some (JObj assets_rules)
         \<and> snd (finishing_steps
                  (script_root @ [case type of Legacy \<Rightarrow> ''legacy'' | Modern \<Rightarrow> ''modern''])
                  script_root pack_root
                  (process_namespaces (pack_root @ [''assets'']) assets_rules t)) = None))
   \<and> (exit_status (fst (main json_load finishing_steps script_root type pack_dir t)) = 0 \<longleftrightarrow>
      fst (main json_load finishing_steps script_root type pack_dir t) = Returned 0)
   \<and> (fst (main json_load finishing_steps script_root type pack_dir t) = Returned 0
      \<or> fst (main json_load finishing_steps script_root type pack_dir t) = Returned 1
      \<or> (\<exists>e. fst (main json_load finishing_steps script_root type pack_dir t) = Raised e))"
proof -
  have "fst (main json_load finishing_steps script_root type pack_dir t) = Returned 0
      \<or> fst (main json_load finishing_steps script_root type pack_dir t) = Returned 1
      \<or> (\<exists>e. fst (main json_load finishing_steps script_root type pack_dir t) = Raised e)"
    by (auto simp: main_def Let_def split: option.splits bool.splits json.splits prod.splits)
  then show ?thesis
    by (simp only: main_returned_one main_returned_zero exit_status_zero simp_thms)
qed

theorem main_exit_code_witness:
  "config_missing [''tool''] Modern (example_disk ''rules'')
   \<and> fst (main example_json_load no_finishing_steps [''tool''] Modern [''pack'']
          (example_disk ''rules'')) = Returned 1
   \<and> \<not> config_missing [''tool''] Legacy (example_disk ''rules'')
   \<and> parsed_config example_json_load [''tool''] Legacy (example_disk ''rules'')
        = Some (JObj [(''assets'', JObj [(''minecraft'', example_rule)])])
   \<and> no_marker [''tool''] (example_disk ''rules'')
   \<and> fst (main example_json_load no_finishing_steps [''tool''] Legacy [''tool'']
          (example_disk ''rules'')) = Returned 1"
proof -
  have missing: "config_missing [''tool''] Modern (example_disk ''rules'')"
    by code_simp
  have present: "\<not> config_missing [''tool''] Legacy (example_disk ''rules'')"
    by code_simp
  have parsed: "parsed_config example_json_load [''tool''] Legacy (example_disk ''rules'')
      = Some (JObj [(''assets'', JObj [(''minecraft'', example_rule)])])"
    by code_simp
  have nomark: "no_marker [''tool''] (example_disk ''rules'')"
    by code_simp
  have a: "fst (main example_json_load no_finishing_steps [''tool''] Modern [''pack'']
      (example_disk ''rules'')) = Returned 1"
    using main_exit_code [of example_json_load no_finishing_steps "[''tool'']" Modern "[''pack'']"
        "example_disk ''rules''"] missing
    by blast
  have b: "fst (main example_json_load no_finishing_steps [''tool''] Legacy [''tool'']
      (example_disk ''rules'')) = Returned 1"
    using main_exit_code [of example_json_load no_finishing_steps "[''tool'']" Legacy "[''tool'']"
        "example_disk ''rules''"] parsed nomark
    by blast
  from missing present parsed nomark a b show ?thesis by simp
qed

end
